theory Spec2Isabelle
  imports Complex_Main "HOL-Library.Sublist"
begin

section \<open>Strings\<close>

text \<open>
  A JavaScript string is a sequence of UTF-16 code units, and \<open>length\<close>, \<open>substring\<close>,
  \<open>startsWith\<close> and the regular expressions of the sources all count code units. A string
  is therefore a list of code units, each a natural number; \<open>str\<close> turns an ASCII literal
  into its code units. Devanagari text has one code unit for each character.
\<close>

type_synonym jsstring = "nat list"

definition str :: "string \<Rightarrow> jsstring" where
  "str s = map of_char s"

text \<open>\<open>String(n)\<close> of a non-negative integer: its decimal digits.\<close>

function show_nat :: "nat \<Rightarrow> jsstring" where
  "show_nat n = (if n < 10 then [48 + n] else show_nat (n div 10) @ [48 + n mod 10])"
  by pat_completeness auto
termination
  by (relation "measure id") auto

declare show_nat.simps [simp del]

text \<open>\<open>s.startsWith(p)\<close> is \<^term>\<open>prefix p s\<close>, \<open>s.endsWith(p)\<close> is \<^term>\<open>suffix p s\<close> and
  \<open>s.includes(p)\<close> is \<open>js_includes s p\<close>: \<open>p\<close> occurs in \<open>s\<close> at some index.\<close>

fun js_includes :: "jsstring \<Rightarrow> jsstring \<Rightarrow> bool" where
  "js_includes [] p = (p = [])"
| "js_includes (c # s) p = (prefix p (c # s) \<or> js_includes s p)"

text \<open>White space is what \<open>\s\<close> and \<open>trim()\<close> take as white space.\<close>

definition is_space :: "nat \<Rightarrow> bool" where
  "is_space c = (c \<in> set [9, 10, 11, 12, 13, 32, 160, 5760, 8232, 8233, 8239, 8287, 12288, 65279]
                 \<or> (8192 \<le> c \<and> c \<le> 8202))"

definition trim :: "jsstring \<Rightarrow> jsstring" where
  "trim s = rev (dropWhile is_space (rev (dropWhile is_space s)))"

text \<open>
  \<open>s.split(/\s+/)\<close>: the pieces between the maximal runs of white space; a string that
  starts or ends with white space has an empty first or last piece, and the empty string
  gives one empty piece. After a piece comes a run of white space, which is dropped.
\<close>

function split_ws :: "jsstring \<Rightarrow> jsstring list" where
  "split_ws s =
     (if list_all (\<lambda>c. \<not> is_space c) s then [s]
      else takeWhile (\<lambda>c. \<not> is_space c) s #
           split_ws (dropWhile is_space (dropWhile (\<lambda>c. \<not> is_space c) s)))"
  by pat_completeness auto
termination
proof (relation "measure length")
  show "wf (measure length)" by simp
next
  fix s :: jsstring
  assume "\<not> list_all (\<lambda>c. \<not> is_space c) s"
  then have "dropWhile (\<lambda>c. \<not> is_space c) s \<noteq> []"
    by (simp add: list_all_iff)
  then obtain c rest where r: "dropWhile (\<lambda>c. \<not> is_space c) s = c # rest"
    by (cases "dropWhile (\<lambda>c. \<not> is_space c) s") auto
  then have "is_space c" using hd_dropWhile [of "\<lambda>c. \<not> is_space c" s] by simp
  then have "length (dropWhile is_space (c # rest)) \<le> length rest"
    by (simp add: length_dropWhile_le)
  moreover have "length (c # rest) \<le> length s"
    using r by (metis length_dropWhile_le)
  ultimately show "(dropWhile is_space (dropWhile (\<lambda>c. \<not> is_space c) s), s) \<in> measure length"
    using r by simp
qed

declare split_ws.simps [simp del]

text \<open>\<open>xs.join(sep)\<close>.\<close>

fun join :: "jsstring \<Rightarrow> jsstring list \<Rightarrow> jsstring" where
  "join sep [] = []"
| "join sep [x] = x"
| "join sep (x # y # ys) = x @ sep @ join sep (y # ys)"

section \<open>Reference retrieval\<close>

text \<open>A row of \<open>lyrics_index\<close>, and a retrieved reference with its optional similarity.\<close>

record lyrics_row =
  song_name :: jsstring
  lyrics_text :: jsstring

record reference = lyrics_row +
  similarity :: "rat option"

definition plain_reference :: "lyrics_row \<Rightarrow> reference" where
  "plain_reference r = \<lparr>song_name = song_name r, lyrics_text = lyrics_text r, similarity = None\<rparr>"

text \<open>
  What a call of the store does: the client throws, or it returns an error (or no data),
  or it answers with the rows the query selects.
\<close>

datatype db_mode = DbThrows | DbFails | DbAnswers

text \<open>
  The world of one retrieval: the runtime's \<open>String.prototype.toLowerCase\<close>, whether
  \<open>generateEmbedding\<close> throws, the rows of \<open>lyrics_index\<close> in the order the store scans
  them, the similarity \<open>1 - (embedding <=> query_embedding)\<close> that the store computes for a
  row (\<open>None\<close> for a row without embedding), and what each of the three calls of the store
  does. \<open>toLowerCase\<close> is a parameter because the case tables of Unicode, which it follows
  for every cased letter and in which the lower-case form of a letter can depend on its
  neighbours and have another length, are not part of the repository; nothing is assumed
  of it.
\<close>

record retrieval =
  toLowerCase :: "jsstring \<Rightarrow> jsstring"
  embedding_throws :: bool
  similarity_of :: "lyrics_row \<Rightarrow> rat option"
  lyrics_index :: "lyrics_row list"
  rpc_mode :: db_mode
  or_mode :: db_mode
  select_mode :: db_mode

text \<open>\<open>src/lib/lyrics-processor.ts\<close>, \<open>findSimilarLyrics\<close>: the keywords of a theme.\<close>

definition stop_words :: "jsstring list" where
  "stop_words = map str
     [''the'', ''and'', ''for'', ''are'', ''but'', ''not'', ''you'', ''all'', ''can'', ''had'',
      ''her'', ''was'', ''one'', ''our'', ''out'', ''day'', ''get'', ''has'', ''him'', ''his'',
      ''how'', ''its'', ''may'', ''new'', ''now'', ''old'', ''see'', ''two'', ''who'', ''boy'',
      ''did'', ''she'', ''use'', ''way'', ''who'', ''oil'', ''sit'', ''set'']"

definition theme_keywords :: "retrieval \<Rightarrow> jsstring \<Rightarrow> jsstring list" where
  "theme_keywords w queryText =
     filter (\<lambda>word. length word > 2 \<and> word \<notin> set stop_words)
       (split_ws (toLowerCase w queryText))"

text \<open>
  \<open>supabase-schema.sql\<close>, \<open>match_lyrics\<close>: the rows whose similarity is above the threshold,
  by descending similarity, at most \<open>match_count\<close> of them.
\<close>

definition above_threshold :: "retrieval \<Rightarrow> rat \<Rightarrow> lyrics_row \<Rightarrow> bool" where
  "above_threshold w match_threshold r =
     (case similarity_of w r of None \<Rightarrow> False | Some x \<Rightarrow> x > match_threshold)"

definition match_lyrics :: "retrieval \<Rightarrow> rat \<Rightarrow> nat \<Rightarrow> reference list" where
  "match_lyrics w match_threshold match_count =
     map (\<lambda>r. \<lparr>song_name = song_name r, lyrics_text = lyrics_text r, similarity = similarity_of w r\<rparr>)
       (take match_count
          (sort_key (\<lambda>r. - the (similarity_of w r))
             (filter (above_threshold w match_threshold) (lyrics_index w))))"

text \<open>
  Modelled from the spec: the store's evaluation of the filter
  \<open>song_name.ilike.%keyword%,lyrics_text.ilike.%keyword%\<close> joined over the keywords, which is
  not part of the repository. The specification reads it as "matching any keyword as a
  case-insensitive substring against either the entry name or its text" and \<open>limit\<close> as
  "up to N matches". A keyword is a case-insensitive substring of a text when some
  contiguous part of the text is the keyword up to the case of its letters, that is, when
  \<open>toLowerCase\<close> gives the same string for both.
\<close>

definition substrings :: "jsstring \<Rightarrow> jsstring list" where
  "substrings s = concat (map prefixes (suffixes s))"

definition ilike_contains :: "retrieval \<Rightarrow> jsstring \<Rightarrow> jsstring \<Rightarrow> bool" where
  "ilike_contains w txt keyword =
     list_ex (\<lambda>part. toLowerCase w part = toLowerCase w keyword) (substrings txt)"

definition matches_keyword :: "retrieval \<Rightarrow> jsstring list \<Rightarrow> lyrics_row \<Rightarrow> bool" where
  "matches_keyword w kws r =
     list_ex (\<lambda>keyword. ilike_contains w (song_name r) keyword \<or>
                         ilike_contains w (lyrics_text r) keyword) kws"

definition or_ilike_limit :: "retrieval \<Rightarrow> jsstring list \<Rightarrow> nat \<Rightarrow> lyrics_row list" where
  "or_ilike_limit w kws matchCount =
     take matchCount (filter (matches_keyword w kws) (lyrics_index w))"

text \<open>The four strategies. A strategy returns from the function, falls through to the
  next one, or throws.\<close>

datatype 'a step = Return 'a | FallThrough | Throw

definition embedding_tier :: "retrieval \<Rightarrow> nat \<Rightarrow> rat \<Rightarrow> reference list step" where
  "embedding_tier w matchCount matchThreshold =
     (if embedding_throws w then FallThrough
      else case rpc_mode w of
             DbThrows \<Rightarrow> FallThrough
           | DbFails \<Rightarrow> FallThrough
           | DbAnswers \<Rightarrow>
               (let embeddingResults = match_lyrics w matchThreshold matchCount in
                if length embeddingResults > 0 then Return embeddingResults else FallThrough))"

definition keyword_tier :: "retrieval \<Rightarrow> jsstring \<Rightarrow> nat \<Rightarrow> reference list step" where
  "keyword_tier w queryText matchCount =
     (if length (theme_keywords w queryText) > 0 then
        (case or_mode w of
           DbThrows \<Rightarrow> Throw
         | DbFails \<Rightarrow> FallThrough
         | DbAnswers \<Rightarrow>
             (let textResults = or_ilike_limit w (theme_keywords w queryText) matchCount in
              if length textResults > 0 then Return (map plain_reference textResults)
              else FallThrough))
      else FallThrough)"

definition random_tier :: "retrieval \<Rightarrow> nat \<Rightarrow> reference list step" where
  "random_tier w matchCount =
     (case select_mode w of
        DbThrows \<Rightarrow> Throw
      | DbFails \<Rightarrow> FallThrough
      | DbAnswers \<Rightarrow>
          (let randomResults = take matchCount (lyrics_index w) in
           if length randomResults > 0 then Return (map plain_reference randomResults)
           else FallThrough))"

definition hardcoded_fallback :: "reference list" where
  "hardcoded_fallback =
     [\<lparr>song_name = str ''Yeh Dosti'',
       lyrics_text = str ''Yeh dosti hum nahin todhenge'' @ [10] @ str ''Todhenge dum magar'' @ [10] @
                     str ''Tera saath na chhodenge'',
       similarity = None\<rparr>,
      \<lparr>song_name = str ''Haan Jab Tak Hain Jaan'',
       lyrics_text = str ''Haan jab tak hain jaan'' @ [10] @ str ''Jaane jahaan main naachoongi'' @ [10] @
                     str ''Pyar kabhi bhi marta nahin'',
       similarity = None\<rparr>,
      \<lparr>song_name = str ''Koi Haseena'',
       lyrics_text = str ''Koi haseena jab rooth jaati hain toh'' @ [10] @ str ''Aur bhi haseen ho jaati hain'',
       similarity = None\<rparr>]"

definition final_fallback :: "reference list" where
  "final_fallback =
     [\<lparr>song_name = str ''Classic Hindi Song'',
       lyrics_text = str ''Dil mein basi hai teri yaad'' @ [10] @ str ''Sapno mein aata hai tera chehra'' @ [10] @
                     str ''Mohabbat ki yeh kahani'',
       similarity = None\<rparr>]"

text \<open>The body of the outer \<open>try\<close>: \<open>Inl\<close> when a statement in it throws.\<close>

definition findSimilarLyrics_body ::
  "retrieval \<Rightarrow> jsstring \<Rightarrow> nat \<Rightarrow> rat \<Rightarrow> unit + reference list" where
  "findSimilarLyrics_body w queryText matchCount matchThreshold =
     (case embedding_tier w matchCount matchThreshold of
        Return rs \<Rightarrow> Inr rs
      | Throw \<Rightarrow> Inl ()
      | FallThrough \<Rightarrow>
         (case keyword_tier w queryText matchCount of
            Return rs \<Rightarrow> Inr rs
          | Throw \<Rightarrow> Inl ()
          | FallThrough \<Rightarrow>
             (case random_tier w matchCount of
                Return rs \<Rightarrow> Inr rs
              | Throw \<Rightarrow> Inl ()
              | FallThrough \<Rightarrow> Inr hardcoded_fallback)))"

text \<open>\<open>findSimilarLyrics\<close>: the outer \<open>catch\<close> returns the final fallback. \<open>Inl\<close> would be an
  exception leaving the function.\<close>

definition findSimilarLyrics ::
  "retrieval \<Rightarrow> jsstring \<Rightarrow> nat \<Rightarrow> rat \<Rightarrow> unit + reference list" where
  "findSimilarLyrics w queryText matchCount matchThreshold =
     (case findSimilarLyrics_body w queryText matchCount matchThreshold of
        Inl error \<Rightarrow> Inr final_fallback
      | Inr rs \<Rightarrow> Inr rs)"

section \<open>Content drafting: the cleanup of the generated text\<close>

text \<open>
  \<open>src/lib/gemini.ts\<close> (\<open>src/unnamed/part_016\<close>), \<open>cleanLyricsResponse\<close>. The regular expressions
  carry the flag \<open>i\<close>: a code unit of the text matches a letter of the pattern when both have
  the same upper-case form; only ASCII letters have another form here, since the patterns
  are ASCII and a code unit outside ASCII never matches an ASCII one.
\<close>

definition fold_case :: "nat \<Rightarrow> nat" where
  "fold_case c = (if 97 \<le> c \<and> c \<le> 122 then c - 32 else c)"

fun ci_prefix :: "jsstring \<Rightarrow> jsstring \<Rightarrow> bool" where
  "ci_prefix [] s = True"
| "ci_prefix (a # p) [] = False"
| "ci_prefix (a # p) (c # s) = (fold_case a = fold_case c \<and> ci_prefix p s)"

definition ci_includes :: "jsstring \<Rightarrow> jsstring \<Rightarrow> bool" where
  "ci_includes s p = js_includes (map fold_case s) (map fold_case p)"

text \<open>\<open>cleaned.search(/\[(Verse|Chorus|Bridge|Intro|Outro)/i)\<close>: the index of the first
  recognized section marker, \<open>None\<close> for \<open>-1\<close>.\<close>

definition section_names :: "jsstring list" where
  "section_names = map str [''Verse'', ''Chorus'', ''Bridge'', ''Intro'', ''Outro'']"

definition marker_at :: "jsstring \<Rightarrow> bool" where
  "marker_at s = list_ex (\<lambda>name. ci_prefix (91 # name) s) section_names"

fun search_marker :: "jsstring \<Rightarrow> nat option" where
  "search_marker [] = None"
| "search_marker (c # cs) =
     (if marker_at (c # cs) then Some 0 else map_option Suc (search_marker cs))"

text \<open>
  \<open>replace(/\*\*[^*]*\*\*/g, "")\<close> and \<open>replace(/\*[^*]*\*/g, "")\<close>. A match starts at two
  stars (one star), runs over the code units that are not stars, and needs two stars (one
  star) right after them; \<open>bold_match\<close> and \<open>italic_match\<close> give the text after a match that
  starts at the head of the string. The global replacement scans from the left and goes on
  after each match.
\<close>

definition bold_match :: "jsstring \<Rightarrow> jsstring option" where
  "bold_match s =
     (if prefix [42, 42] s \<and> prefix [42, 42] (dropWhile (\<lambda>c. c \<noteq> 42) (drop 2 s))
      then Some (drop 2 (dropWhile (\<lambda>c. c \<noteq> 42) (drop 2 s))) else None)"

definition italic_match :: "jsstring \<Rightarrow> jsstring option" where
  "italic_match s =
     (if prefix [42] s \<and> prefix [42] (dropWhile (\<lambda>c. c \<noteq> 42) (drop 1 s))
      then Some (drop 1 (dropWhile (\<lambda>c. c \<noteq> 42) (drop 1 s))) else None)"

function remove_bold :: "jsstring \<Rightarrow> jsstring" where
  "remove_bold [] = []"
| "remove_bold (c # cs) =
     (case bold_match (c # cs) of
        Some rest \<Rightarrow> remove_bold rest
      | None \<Rightarrow> c # remove_bold cs)"
  by pat_completeness auto
termination
proof (relation "measure length")
  show "wf (measure length)" by simp
next
  fix c :: nat and cs rest
  assume "bold_match (c # cs) = Some rest"
  then have "rest = drop 2 (dropWhile (\<lambda>c. c \<noteq> 42) (drop 2 (c # cs)))"
    by (simp add: bold_match_def split: if_splits)
  moreover have "length (dropWhile (\<lambda>c. c \<noteq> 42) (drop 2 (c # cs))) \<le> length (drop 2 (c # cs))"
    by (rule length_dropWhile_le)
  ultimately show "(rest, c # cs) \<in> measure length" by simp
next
  fix c :: nat and cs
  show "(cs, c # cs) \<in> measure length" by simp
qed

function remove_italic :: "jsstring \<Rightarrow> jsstring" where
  "remove_italic [] = []"
| "remove_italic (c # cs) =
     (case italic_match (c # cs) of
        Some rest \<Rightarrow> remove_italic rest
      | None \<Rightarrow> c # remove_italic cs)"
  by pat_completeness auto
termination
proof (relation "measure length")
  show "wf (measure length)" by simp
next
  fix c :: nat and cs rest
  assume "italic_match (c # cs) = Some rest"
  then have "rest = drop 1 (dropWhile (\<lambda>c. c \<noteq> 42) (drop 1 (c # cs)))"
    by (simp add: italic_match_def split: if_splits)
  moreover have "length (dropWhile (\<lambda>c. c \<noteq> 42) (drop 1 (c # cs))) \<le> length (drop 1 (c # cs))"
    by (rule length_dropWhile_le)
  ultimately show "(rest, c # cs) \<in> measure length" by simp
next
  fix c :: nat and cs
  show "(cs, c # cs) \<in> measure length" by simp
qed

text \<open>
  \<open>replace(/PHRASE[^]*$/i, "")\<close>, without the flag \<open>g\<close>: the text from the first occurrence
  of the phrase, in any letter case, to the end is removed.
\<close>

fun cut_at :: "jsstring \<Rightarrow> jsstring \<Rightarrow> jsstring" where
  "cut_at phrase [] = []"
| "cut_at phrase (c # cs) = (if ci_prefix phrase (c # cs) then [] else c # cut_at phrase cs)"

definition forbidden_phrases :: "jsstring list" where
  "forbidden_phrases = map str
     [''I hope these lyrics'', ''These lyrics capture'', ''The song'', ''Style Elements:'',
      ''Explanation'', ''Translation'', ''Meaning'', ''Note:'', ''Here are'', ''This song'']"

definition remove_unwanted :: "jsstring \<Rightarrow> jsstring" where
  "remove_unwanted cleaned =
     foldl (\<lambda>cleaned phrase. cut_at phrase cleaned) (remove_italic (remove_bold cleaned))
       forbidden_phrases"

text \<open>
  \<open>cleaned.match(/(\[(?:Verse|Chorus|Bridge|Outro)[^\]]*\][^]*?)(?:\n\n[A-Z]|$)/i)\<close>. The
  match starts at the first position holding \<open>[\<close>, one of the four names and, further on,
  a \<open>]\<close>; its group 1 runs to the first \<open>]\<close> and then, lazily, up to the first blank line
  that a letter follows (with the flag \<open>i\<close>, \<open>[A-Z]\<close> takes both cases), or to the end of the
  text. \<open>section_match_length\<close> is the length of group 1 for a match at the head.
\<close>

definition last_section_names :: "jsstring list" where
  "last_section_names = map str [''Verse'', ''Chorus'', ''Bridge'', ''Outro'']"

definition is_letter :: "nat \<Rightarrow> bool" where
  "is_letter c = ((65 \<le> c \<and> c \<le> 90) \<or> (97 \<le> c \<and> c \<le> 122))"

fun paragraph_break :: "jsstring \<Rightarrow> bool" where
  "paragraph_break (a # b # c # rest) = (a = 10 \<and> b = 10 \<and> is_letter c)"
| "paragraph_break s = False"

fun lazy_length :: "jsstring \<Rightarrow> nat" where
  "lazy_length [] = 0"
| "lazy_length (c # cs) = (if paragraph_break (c # cs) then 0 else Suc (lazy_length cs))"

definition section_match_length :: "jsstring \<Rightarrow> nat option" where
  "section_match_length s =
     (case find (\<lambda>name. ci_prefix (91 # name) s) last_section_names of
        None \<Rightarrow> None
      | Some name \<Rightarrow>
          (case dropWhile (\<lambda>c. c \<noteq> 93) (drop (Suc (length name)) s) of
             [] \<Rightarrow> None
           | bracket # rest \<Rightarrow>
               Some (Suc (length name)
                     + length (takeWhile (\<lambda>c. c \<noteq> 93) (drop (Suc (length name)) s))
                     + 1 + lazy_length rest)))"

fun last_section_group :: "jsstring \<Rightarrow> jsstring option" where
  "last_section_group [] = None"
| "last_section_group (c # cs) =
     (case section_match_length (c # cs) of
        Some n \<Rightarrow> Some (take n (c # cs))
      | None \<Rightarrow> last_section_group cs)"

text \<open>\<open>s.lastIndexOf(p)\<close>: the greatest index at which \<open>p\<close> occurs in \<open>s\<close>, or -1.\<close>

definition lastIndexOf :: "jsstring \<Rightarrow> jsstring \<Rightarrow> int" where
  "lastIndexOf s p =
     (case filter (\<lambda>i. prefix p (drop i s)) (rev [0 ..< Suc (length s)]) of
        [] \<Rightarrow> - 1
      | i # others \<Rightarrow> int i)"

definition cleanLyricsResponse :: "jsstring \<Rightarrow> jsstring" where
  "cleanLyricsResponse response_text =
     (let cleaned = trim response_text;
          cleaned = (case search_marker cleaned of
                       None \<Rightarrow> cleaned
                     | Some lyricsStart \<Rightarrow> drop lyricsStart cleaned);
          cleaned = remove_unwanted cleaned;
          cleaned = (case last_section_group cleaned of
                       None \<Rightarrow> cleaned
                     | Some group1 \<Rightarrow>
                         take (nat (lastIndexOf cleaned group1 + int (length group1))) cleaned)
      in trim cleaned)"

section \<open>The music service: task status\<close>

text \<open>
  \<open>src/lib/ai-music.ts\<close>. A clip of a task response (\<open>SunoTaskResponse.data[i]\<close>); the state is
  one of the four the interface names, or any other string the service sends. The duration
  is a JSON number, here a rational.
\<close>

datatype clip_state = CPending | CRunning | CSucceeded | CFailed | COther jsstring

record clip =
  c_clip_id :: jsstring
  c_title :: jsstring
  c_tags :: jsstring
  c_lyrics :: jsstring
  c_image_url :: jsstring
  c_audio_url :: jsstring
  c_video_url :: jsstring
  c_created_at :: jsstring
  c_mv :: jsstring
  c_duration :: rat
  c_state :: clip_state

text \<open>
  \<open>SunoTaskResponse\<close>. \<open>data\<close> is \<open>None\<close> when the field is missing or is not an array (the
  sources test \<open>!result.data || !Array.isArray(result.data)\<close>; an empty array is truthy in
  JavaScript, so \<open>Some []\<close> passes that test). \<open>message\<close> is \<open>None\<close> when the field is missing.
\<close>

record task_response =
  code :: int
  data :: "clip list option"
  message :: "jsstring option"

text \<open>
  What one \<open>fetch\<close> of the task status endpoint does. A thrown \<open>Error\<close> is its message.
\<close>

datatype http_reply =
    FetchRejects jsstring
  | NotReady202 "jsstring + jsstring option"
  | NotOk nat jsstring
  | Ok2xx "jsstring + task_response"

text \<open>
  The requests the pipeline sends: to the text-generation service the prompt, which is
  built from the user's request, the style tags and the first 200 code units of each
  reference text; to the audio-creation endpoint the body of \<open>create_music\<close>.
\<close>

record gen_request =
  q_userPrompt :: jsstring
  q_styleTags :: "jsstring list"
  q_references :: "jsstring list"

record create_request =
  task_type :: jsstring
  custom_mode :: bool
  prompt :: jsstring
  q_title :: jsstring
  q_tags :: jsstring
  mv :: jsstring

text \<open>
  The outside world of one run: the corpus and its store, the replies of the services to
  the successive calls (the k-th call of a service gets the k-th reply, which may depend on
  the request), the clock and the random source. The text-generation service throws
  (\<open>Inl\<close>) or returns a text; the audio-creation call throws (network error, status outside
  2xx, a body that is not JSON) or returns the body's \<open>task_id\<close>, \<open>None\<close> when the body has
  none.
\<close>

record env =
  corpus :: retrieval
  gen_api :: "gen_request \<Rightarrow> nat \<Rightarrow> jsstring + jsstring"
  create_api :: "create_request \<Rightarrow> nat \<Rightarrow> jsstring + jsstring option"
  status_api :: "jsstring \<Rightarrow> nat \<Rightarrow> http_reply"
  date_now :: nat
  iso_now :: jsstring
  random36 :: jsstring

text \<open>The effects of a run: how many calls each service received and the delays slept (ms).\<close>

record io =
  status_calls :: nat
  create_calls :: nat
  gen_calls :: nat
  slept :: "rat list"

definition sleep :: "rat \<Rightarrow> io \<Rightarrow> io" where
  "sleep ms s = s\<lparr>slept := slept s @ [ms]\<rparr>"

definition io0 :: io where
  "io0 = \<lparr>status_calls = 0, create_calls = 0, gen_calls = 0, slept = []\<rparr>"

text \<open>
  \<open>getTaskStatus\<close>: a 202 becomes a response of code 202 with no clips, whose message is the
  body's \<open>error\<close> field when that is truthy; another status outside 2xx throws; a rejected
  \<open>fetch\<close> or \<open>json()\<close> throws. \<open>Inl\<close> is the thrown error's message.
\<close>

definition getTaskStatus :: "env \<Rightarrow> jsstring \<Rightarrow> io \<Rightarrow> (jsstring + task_response) \<times> io" where
  "getTaskStatus e taskId s =
     (let s' = s\<lparr>status_calls := Suc (status_calls s)\<rparr> in
      case status_api e taskId (status_calls s) of
        FetchRejects m \<Rightarrow> (Inl m, s')
      | NotReady202 body \<Rightarrow>
          (case body of
             Inl m \<Rightarrow> (Inl m, s')
           | Inr err \<Rightarrow>
               (Inr \<lparr>code = 202, data = Some [],
                     message = Some (case err of
                                       None \<Rightarrow> str ''Task not ready, please wait''
                                     | Some m \<Rightarrow> if m = [] then str ''Task not ready, please wait'' else m)\<rparr>,
                s'))
      | NotOk st txt \<Rightarrow>
          (Inl (str ''Suno API error ('' @ show_nat st @ str ''): '' @ txt), s')
      | Ok2xx body \<Rightarrow>
          (case body of Inl m \<Rightarrow> (Inl m, s') | Inr r \<Rightarrow> (Inr r, s')))"


section \<open>Drafting and submission\<close>

text \<open>
  \<open>optimizeLyricsPrompt\<close> (\<open>src/unnamed/part_016\<close>): one call of the text-generation service;
  its text is trimmed and cleaned; an error is logged and thrown again.
\<close>

definition optimizeLyricsPrompt ::
  "env \<Rightarrow> jsstring \<Rightarrow> jsstring list \<Rightarrow> jsstring list \<Rightarrow> io \<Rightarrow> (jsstring + jsstring) \<times> io" where
  "optimizeLyricsPrompt e userPrompt styleTags similarLyrics s =
     (case gen_api e \<lparr>q_userPrompt = userPrompt, q_styleTags = styleTags,
                       q_references = map (take 200) similarLyrics\<rparr> (gen_calls s) of
        Inl error \<Rightarrow> (Inl error, s\<lparr>gen_calls := Suc (gen_calls s)\<rparr>)
      | Inr generated \<Rightarrow>
          (Inr (cleanLyricsResponse (trim generated)), s\<lparr>gen_calls := Suc (gen_calls s)\<rparr>))"

text \<open>
  \<open>src/lib/ai-music.ts\<close>, \<open>generateCompleteSong\<close>. The fallback lyric of its \<open>catch\<close>, as
  UTF-16 code units (the lines in Devanagari are written as numbers).
\<close>

definition fallback_lyrics :: jsstring where
  "fallback_lyrics =
     str ''[Verse]'' @ [10] @
     [2346, 2381, 2352, 2375, 2350, 32, 2325, 2368, 32, 2351, 2375, 32, 2325, 2361,
      2366, 2344, 2368, 32, 2360, 2369, 2344, 2366, 2340, 2375, 32, 2361, 2376,
      2306] @ [10] @
     [2342, 2367, 2354, 32, 2325, 2368, 32, 2327, 2361, 2352, 2366, 2311, 2351,
      2379, 2306, 32, 2360, 2375, 32, 2310, 2357, 2366, 2332, 2364, 32, 2354, 2366,
      2340, 2375, 32, 2361, 2376, 2306] @ [10] @
     [] @ [10] @
     str ''[Chorus]'' @ [10] @
     [2327, 2366, 2340, 2375, 32, 2361, 2376, 2306, 32, 2361, 2350, 32, 2351, 2375,
      32, 2327, 2366, 2344, 2366] @ [10] @
     [2346, 2381, 2352, 2375, 2350, 32, 2325, 2366, 32, 2351, 2375, 32, 2342, 2368,
      2357, 2366, 2344, 2366] @ [10] @
     [2326, 2369, 2358, 2368, 32, 2360, 2375, 32, 2349, 2352, 2366, 32, 2361, 2376,
      32, 2350, 2344] @ [10] @
     [2360, 2369, 2344, 2379, 32, 2311, 2360, 2375, 32, 2340, 2369, 2350, 32, 2349,
      2368, 32, 2319, 2325, 32, 2348, 2366, 2352]"

record song_params =
  p_title :: jsstring
  p_theme :: jsstring
  p_genre :: "jsstring option"
  p_styles :: "jsstring list"
  p_customLyrics :: "jsstring option"

record song_result =
  r_lyrics :: jsstring
  r_title :: jsstring
  r_task_id :: "jsstring option"
  r_reference_songs :: "jsstring list"
  r_error :: "jsstring option"

text \<open>
  Step 1, taken when \<open>customLyrics\<close> is missing or empty: the references, then the draft.
  \<open>referenceSongs\<close> is assigned before \<open>optimizeLyricsPrompt\<close> is called, so it keeps the names
  when that call throws; the \<open>catch\<close> substitutes the fallback lyric. The result is the pair
  of \<open>lyrics\<close> and \<open>referenceSongs\<close> after the \<open>try\<close>.
\<close>

definition rag_lyrics ::
  "env \<Rightarrow> jsstring \<Rightarrow> jsstring list \<Rightarrow> io \<Rightarrow> (jsstring \<times> jsstring list) \<times> io" where
  "rag_lyrics e theme styles s =
     (case findSimilarLyrics (corpus e) theme 3 (1 / 100) of
        Inl error \<Rightarrow> ((fallback_lyrics, []), s)
      | Inr similarLyrics \<Rightarrow>
          if length similarLyrics > 0 then
            (case optimizeLyricsPrompt e theme styles (map lyrics_text similarLyrics) s of
               (Inr generated, s1) \<Rightarrow> ((generated, map song_name similarLyrics), s1)
             | (Inl ragError, s1) \<Rightarrow> ((fallback_lyrics, map song_name similarLyrics), s1))
          else
            (case optimizeLyricsPrompt e theme styles [] s of
               (Inr generated, s1) \<Rightarrow> ((generated, []), s1)
             | (Inl ragError, s1) \<Rightarrow> ((fallback_lyrics, []), s1)))"

definition mock_task_id :: "env \<Rightarrow> jsstring" where
  "mock_task_id e = str ''mock_'' @ show_nat (date_now e) @ str ''_'' @ take 9 (drop 2 (random36 e))"

definition create_music_request :: "song_params \<Rightarrow> jsstring \<Rightarrow> create_request" where
  "create_music_request params final_lyrics =
     \<lparr>task_type = str ''create_music'', custom_mode = True, prompt = final_lyrics,
      q_title = p_title params,
      q_tags = (if length (p_styles params) > 0 then join (str '', '') (p_styles params)
                else (case p_genre params of None \<Rightarrow> str ''bollywood'' | Some genre \<Rightarrow> genre)
                     @ str '', hindi, bollywood''),
      mv = str ''chirp-v5''\<rparr>"

text \<open>Step 2: with no lyrics the function returns an error record and no task id; else it
  submits the song, and any failure of the call, or a body without \<open>task_id\<close>, is caught and
  answered with a mock task id. \<open>Inl\<close> would be an exception leaving the function.\<close>

definition generateCompleteSong ::
  "env \<Rightarrow> song_params \<Rightarrow> io \<Rightarrow> (jsstring + song_result) \<times> io" where
  "generateCompleteSong e params s =
     (case (case p_customLyrics params of
              None \<Rightarrow> rag_lyrics e (p_theme params) (p_styles params) s
            | Some custom \<Rightarrow>
                if custom = [] then rag_lyrics e (p_theme params) (p_styles params) s
                else ((custom, []), s))
      of ((final_lyrics, referenceSongs), s1) \<Rightarrow>
        if final_lyrics = [] then
          (Inr \<lparr>r_lyrics = [], r_title = p_title params, r_task_id = None,
                r_reference_songs = referenceSongs,
                r_error = Some (str ''Failed to generate lyrics'')\<rparr>, s1)
        else
          (case create_api e (create_music_request params final_lyrics) (create_calls s1) of
             Inr (Some created) \<Rightarrow>
               if created = [] then
                 (Inr \<lparr>r_lyrics = final_lyrics, r_title = p_title params,
                       r_task_id = Some (mock_task_id e),
                       r_reference_songs = referenceSongs, r_error = None\<rparr>,
                  s1\<lparr>create_calls := Suc (create_calls s1)\<rparr>)
               else
                 (Inr \<lparr>r_lyrics = final_lyrics, r_title = p_title params,
                       r_task_id = Some created,
                       r_reference_songs = referenceSongs, r_error = None\<rparr>,
                  s1\<lparr>create_calls := Suc (create_calls s1)\<rparr>)
           | Inr None \<Rightarrow>
               (Inr \<lparr>r_lyrics = final_lyrics, r_title = p_title params,
                     r_task_id = Some (mock_task_id e),
                     r_reference_songs = referenceSongs, r_error = None\<rparr>,
                s1\<lparr>create_calls := Suc (create_calls s1)\<rparr>)
           | Inl musicError \<Rightarrow>
               (Inr \<lparr>r_lyrics = final_lyrics, r_title = p_title params,
                     r_task_id = Some (mock_task_id e),
                     r_reference_songs = referenceSongs, r_error = None\<rparr>,
                s1\<lparr>create_calls := Suc (create_calls s1)\<rparr>)))"

text \<open>The response \<open>pollTaskCompletion\<close> builds for a task id that starts with \<open>mock_\<close>.
  \<open>taskId.replace("mock_", "clip_")\<close> replaces the first occurrence, which is the prefix.\<close>

definition mock_response :: "env \<Rightarrow> jsstring \<Rightarrow> task_response" where
  "mock_response e taskId =
     \<lparr>code = 200,
      data = Some [\<lparr>c_clip_id = str ''clip_'' @ drop 5 taskId,
                    c_title = str ''Generated Song'',
                    c_tags = str ''bollywood, hindi, romantic'',
                    c_lyrics = str ''Mock generated lyrics'',
                    c_image_url = str ''https://cdn1.suno.ai/mock-image-url.jpg'',
                    c_audio_url = str ''https://cdn1.suno.ai/mock-audio-url.mp3'',
                    c_video_url = str ''https://cdn1.suno.ai/mock-video-url.mp4'',
                    c_created_at = iso_now e,
                    c_mv = str ''chirp-v5'',
                    c_duration = 180,
                    c_state = CSucceeded\<rparr>],
      message = Some (str ''Mock task completed successfully'')\<rparr>"

text \<open>
  The loop of \<open>pollTaskCompletion\<close>, \<open>for (attempt = 0; attempt < maxAttempts; attempt++)\<close>.
  It ends by returning a response from inside the body, or by running out of attempts with
  the last caught error (\<open>lastError\<close>, \<open>None\<close> for \<open>null\<close>). The test
  \<open>attempt < maxAttempts - 1\<close> is written \<open>attempt + 1 < maxAttempts\<close>, the same inside the
  loop, where subtraction on naturals would stop at 0. The backoff is
  \<open>Math.min(intervalMs * Math.pow(1.5, attempt), 120000)\<close>.
\<close>

datatype loop_exit = Returned task_response | Exhausted "jsstring option"

definition wait_interval :: "nat \<Rightarrow> nat \<Rightarrow> rat \<Rightarrow> io \<Rightarrow> io" where
  "wait_interval attempt maxAttempts intervalMs s =
     (if attempt + 1 < maxAttempts then sleep intervalMs s else s)"

definition wait_backoff :: "nat \<Rightarrow> nat \<Rightarrow> rat \<Rightarrow> io \<Rightarrow> io" where
  "wait_backoff attempt maxAttempts intervalMs s =
     (if attempt + 1 < maxAttempts
      then sleep (min (intervalMs * (3 / 2) ^ attempt) 120000) s else s)"

definition hasCompleted :: "clip list \<Rightarrow> bool" where
  "hasCompleted clips = list_ex (\<lambda>c. c_state c = CSucceeded) clips"

definition hasFailed :: "clip list \<Rightarrow> bool" where
  "hasFailed clips = list_ex (\<lambda>c. c_state c = CFailed) clips"

definition allPending :: "clip list \<Rightarrow> bool" where
  "allPending clips = list_all (\<lambda>c. c_state c = CPending \<or> c_state c = CRunning) clips"

function poll_loop ::
  "env \<Rightarrow> jsstring \<Rightarrow> nat \<Rightarrow> rat \<Rightarrow> nat \<Rightarrow> jsstring option \<Rightarrow> io \<Rightarrow> loop_exit \<times> io" where
  "poll_loop e taskId maxAttempts intervalMs attempt lastError s =
     (if attempt < maxAttempts then
        (case getTaskStatus e taskId s of
           (Inr result, s1) \<Rightarrow>
             if code result = 202 then
               poll_loop e taskId maxAttempts intervalMs (Suc attempt) lastError
                 (wait_interval attempt maxAttempts intervalMs s1)
             else
               (case data result of
                  None \<Rightarrow>
                    poll_loop e taskId maxAttempts intervalMs (Suc attempt) lastError
                      (wait_interval attempt maxAttempts intervalMs s1)
                | Some clips \<Rightarrow>
                    if hasCompleted clips \<or> hasFailed clips then (Returned result, s1)
                    else if \<not> allPending clips then (Returned result, s1)
                    else
                      poll_loop e taskId maxAttempts intervalMs (Suc attempt) lastError
                        (wait_interval attempt maxAttempts intervalMs s1))
         | (Inl err, s1) \<Rightarrow>
             poll_loop e taskId maxAttempts intervalMs (Suc attempt) (Some err)
               (wait_backoff attempt maxAttempts intervalMs s1))
      else (Exhausted lastError, s))"
  by pat_completeness auto
termination
  by (relation "measure (\<lambda>(e, taskId, maxAttempts, intervalMs, attempt, lastError, s).
                           maxAttempts - attempt)") auto

declare poll_loop.simps [simp del]

text \<open>
  \<open>pollTaskCompletion(taskId, maxAttempts, intervalMs)\<close>. The result is \<open>Inl\<close> when the
  function throws and \<open>Inr\<close> when it returns a response. The parameter is declared a
  string, but the background task passes \<open>result.task_id\<close>, which is \<open>undefined\<close> when no
  task was created; the task id is therefore optional here, \<open>None\<close> for \<open>undefined\<close>. The
  first statement, \<open>taskId.startsWith("mock_")\<close>, stands outside every \<open>try\<close>: on
  \<open>undefined\<close> it throws a \<open>TypeError\<close>, which leaves the function. A mock id sleeps 2000 ms
  and returns the mock response. After the loop, a caught error gives the code 500 response
  \<open>Polling failed: ...\<close>; with no caught error one more status call is made, inside a
  \<open>try\<close> whose \<open>catch\<close> gives the code 500 response \<open>Final status check failed: ...\<close>.
\<close>

definition startsWith_of_undefined :: jsstring where
  "startsWith_of_undefined = str ''Cannot read properties of undefined (reading 'startsWith')''"

definition pollTaskCompletion ::
  "env \<Rightarrow> jsstring option \<Rightarrow> nat \<Rightarrow> rat \<Rightarrow> io \<Rightarrow> (jsstring + task_response) \<times> io" where
  "pollTaskCompletion e taskId' maxAttempts intervalMs s =
     (case taskId' of
        None \<Rightarrow> (Inl startsWith_of_undefined, s)
      | Some taskId \<Rightarrow>
         if prefix (str ''mock_'') taskId then (Inr (mock_response e taskId), sleep 2000 s)
         else
           (case poll_loop e taskId maxAttempts intervalMs 0 None s of
              (Returned result, s1) \<Rightarrow> (Inr result, s1)
            | (Exhausted (Some lastError), s1) \<Rightarrow>
                (Inr \<lparr>code = 500, data = Some [],
                      message = Some (str ''Polling failed: '' @ lastError)\<rparr>, s1)
            | (Exhausted None, s1) \<Rightarrow>
                (case getTaskStatus e taskId s1 of
                   (Inr result, s2) \<Rightarrow> (Inr result, s2)
                 | (Inl err, s2) \<Rightarrow>
                     (Inr \<lparr>code = 500, data = Some [],
                           message = Some (str ''Final status check failed: '' @ err)\<rparr>, s2))))"

text \<open>The outcome of the k-th call of the status endpoint, whatever else the run has done.\<close>

definition status_result :: "env \<Rightarrow> jsstring \<Rightarrow> nat \<Rightarrow> jsstring + task_response" where
  "status_result e taskId k = fst (getTaskStatus e taskId (io0\<lparr>status_calls := k\<rparr>))"


section \<open>The song row and its updates\<close>

text \<open>
  \<open>src/lib/supabase.ts\<close>: the \<open>Song\<close> row (the fields the generation pipeline writes) and
  \<open>updateSong(songId, updates)\<close>, which overwrites exactly the fields present in \<open>updates\<close>.
  An update is a record of optional fields: \<open>None\<close> for a field that is absent. The store
  keeps the row and, in order, every update applied to it. The store is taken to accept
  every update; the generation log (\<open>createGenerationLog\<close>) is not part of the model.
\<close>

datatype song_status = SPending | SGenerating | SCompleted | SFailed

record song =
  title :: jsstring
  lyrics :: "jsstring option"
  tags :: "jsstring option"
  reference_songs :: "jsstring list"
  task_id :: "jsstring option"
  clip_id :: "jsstring option"
  audio_url :: "jsstring option"
  video_url :: "jsstring option"
  image_url :: "jsstring option"
  duration :: "rat option"
  status :: song_status
  error_message :: "jsstring option"
  completed_at :: "jsstring option"

record song_update =
  u_title :: "jsstring option"
  u_lyrics :: "jsstring option"
  u_tags :: "jsstring option"
  u_reference_songs :: "jsstring list option"
  u_task_id :: "jsstring option option"
  u_clip_id :: "jsstring option"
  u_audio_url :: "jsstring option"
  u_video_url :: "jsstring option"
  u_image_url :: "jsstring option"
  u_duration :: "rat option option"
  u_status :: "song_status option"
  u_error_message :: "jsstring option option"
  u_completed_at :: "jsstring option"

definition no_update :: song_update where
  "no_update = \<lparr>u_title = None, u_lyrics = None, u_tags = None, u_reference_songs = None,
     u_task_id = None, u_clip_id = None, u_audio_url = None, u_video_url = None,
     u_image_url = None, u_duration = None, u_status = None, u_error_message = None,
     u_completed_at = None\<rparr>"

definition set_field :: "'a option \<Rightarrow> 'a \<Rightarrow> 'a" where
  "set_field u old = (case u of None \<Rightarrow> old | Some v \<Rightarrow> v)"

definition set_nullable :: "'a option \<Rightarrow> 'a option \<Rightarrow> 'a option" where
  "set_nullable u old = (case u of None \<Rightarrow> old | Some v \<Rightarrow> Some v)"

definition apply_update :: "song_update \<Rightarrow> song \<Rightarrow> song" where
  "apply_update u r =
     \<lparr>title = set_field (u_title u) (title r),
      lyrics = set_nullable (u_lyrics u) (lyrics r),
      tags = set_nullable (u_tags u) (tags r),
      reference_songs = set_field (u_reference_songs u) (reference_songs r),
      task_id = set_field (u_task_id u) (task_id r),
      clip_id = set_nullable (u_clip_id u) (clip_id r),
      audio_url = set_nullable (u_audio_url u) (audio_url r),
      video_url = set_nullable (u_video_url u) (video_url r),
      image_url = set_nullable (u_image_url u) (image_url r),
      duration = set_field (u_duration u) (duration r),
      status = set_field (u_status u) (status r),
      error_message = set_field (u_error_message u) (error_message r),
      completed_at = set_nullable (u_completed_at u) (completed_at r)\<rparr>"

record db =
  row :: song
  updates :: "song_update list"

definition updateSong :: "song_update \<Rightarrow> db \<Rightarrow> db" where
  "updateSong u d = \<lparr>row = apply_update u (row d), updates = updates d @ [u]\<rparr>"

text \<open>The statuses written to the row, in order.\<close>

definition status_writes :: "db \<Rightarrow> song_status list" where
  "status_writes d = List.map_filter u_status (updates d)"

section \<open>Completion polling of a song\<close>

text \<open>
  \<open>src/app/api/songs/generate/route.ts\<close>, \<open>pollSongCompletion(songId, taskId)\<close>. The caller
  passes \<open>result.task_id\<close>, which is \<open>undefined\<close> when no task was created. The whole body is
  one \<open>try\<close>: an error thrown by \<open>pollTaskCompletion\<close> reaches the \<open>catch\<close>, which marks the
  song failed with that error's message. \<open>Math.round(x)\<close> is \<open>\<lfloor>x + 1/2\<rfloor>\<close>; a duration of
  0 is falsy and is stored as \<open>null\<close>.
\<close>

definition js_round :: "rat \<Rightarrow> rat" where
  "js_round x = of_int \<lfloor>x + 1 / 2\<rfloor>"

definition completed_update :: "env \<Rightarrow> clip \<Rightarrow> song_update" where
  "completed_update e successfulClip =
     no_update\<lparr>u_status := Some SCompleted,
       u_clip_id := Some (c_clip_id successfulClip),
       u_audio_url := Some (c_audio_url successfulClip),
       u_video_url := Some (c_video_url successfulClip),
       u_image_url := Some (c_image_url successfulClip),
       u_duration := Some (if c_duration successfulClip = 0 then None
                           else Some (js_round (c_duration successfulClip))),
       u_completed_at := Some (iso_now e),
       u_error_message := Some None\<rparr>"

definition set_status :: "song_status \<Rightarrow> jsstring \<Rightarrow> song_update" where
  "set_status st msg = no_update\<lparr>u_status := Some st, u_error_message := Some (Some msg)\<rparr>"

definition pollSongCompletion :: "env \<Rightarrow> jsstring option \<Rightarrow> db \<times> io \<Rightarrow> db \<times> io" where
  "pollSongCompletion e taskId ds =
     (case ds of (d, s) \<Rightarrow>
        (case pollTaskCompletion e taskId 15 30000 s of
           (Inl err, s1) \<Rightarrow> (updateSong (set_status SFailed err) d, s1)
         | (Inr result, s1) \<Rightarrow>
            (case data result of
               None \<Rightarrow>
                 if code result = 500 \<and>
                    (case message result of None \<Rightarrow> False
                     | Some m \<Rightarrow> js_includes m (str ''Polling failed''))
                 then (updateSong (set_status SGenerating
                         (str ''Song is being generated - Suno API experiencing temporary issues. Please check back later.'')) d, s1)
                 else (updateSong (set_status SFailed (str ''Invalid response from Suno API'')) d, s1)
             | Some clips \<Rightarrow>
                (case find (\<lambda>clip. c_state clip = CSucceeded) clips of
                   Some successfulClip \<Rightarrow> (updateSong (completed_update e successfulClip) d, s1)
                 | None \<Rightarrow>
                    (case find (\<lambda>clip. c_state clip = CFailed) clips of
                       Some failedClip \<Rightarrow>
                         (updateSong (set_status SFailed (str ''Song generation failed on Suno API'')) d, s1)
                     | None \<Rightarrow>
                         (updateSong (set_status SFailed (str ''Song generation timed out'')) d, s1))))))"

section \<open>The background task of a song\<close>

text \<open>
  \<open>generateSongInBackground\<close>: the status goes to \<open>generating\<close>; the song is generated
  (\<open>safeApiCall\<close> puts \<open>Song generation: \<close> before the message of an error); the task id,
  lyrics, tags, title and reference names are stored (a task id that is \<open>undefined\<close> is left
  out of the update); then the completion is polled. The \<open>catch\<close> marks the song failed.
\<close>

definition task_update :: "song_params \<Rightarrow> song_result \<Rightarrow> song_update" where
  "task_update params result =
     no_update\<lparr>u_task_id := (case r_task_id result of None \<Rightarrow> None | Some t \<Rightarrow> Some (Some t)),
       u_lyrics := Some (r_lyrics result),
       u_tags := Some (if length (p_styles params) > 0 then join (str '', '') (p_styles params)
                       else str ''bollywood, hindi''),
       u_title := Some (r_title result),
       u_reference_songs := Some (r_reference_songs result)\<rparr>"


section \<open>The manual status check\<close>



section \<open>Ingestion of the corpus\<close>

text \<open>
  \<open>src/lib/lyrics-processor.ts\<close>, \<open>processLyricsCSV\<close>. An element of the array that
  \<open>JSON.parse\<close> returns is a string, \<open>null\<close>, or another value, kept with its \<open>String(...)\<close>
  form: \<open>line !== "Lyrics"\<close> holds for every element that is not that string,
  \<open>/^\d+$/.test(line)\<close> tests the \<open>String(...)\<close> form, and \<open>join\<close> writes \<open>null\<close> as the empty
  string.
\<close>

datatype json_value = JStr jsstring | JNull | JOther jsstring

definition to_string :: "json_value \<Rightarrow> jsstring" where
  "to_string v = (case v of JStr s \<Rightarrow> s | JNull \<Rightarrow> str ''null'' | JOther s \<Rightarrow> s)"

definition join_string :: "json_value \<Rightarrow> jsstring" where
  "join_string v = (case v of JStr s \<Rightarrow> s | JNull \<Rightarrow> [] | JOther s \<Rightarrow> s)"

definition all_digits :: "jsstring \<Rightarrow> bool" where
  "all_digits s = (s \<noteq> [] \<and> list_all (\<lambda>c. 48 \<le> c \<and> c \<le> 57) s)"

definition keep_line :: "json_value \<Rightarrow> bool" where
  "keep_line line = (line \<noteq> JStr (str ''Lyrics'') \<and> \<not> all_digits (to_string line))"

text \<open>\<open>cleanLyrics.replace(/'/g, '"')\<close>, and the test that the text starts with \<open>['\<close> and
  ends with \<open>']\<close> (code units 91, 39 and 39, 93).\<close>

definition replace_quotes :: "jsstring \<Rightarrow> jsstring" where
  "replace_quotes s = map (\<lambda>c. if c = 39 then 34 else c) s"

definition list_literal :: "jsstring \<Rightarrow> bool" where
  "list_literal s = (prefix [91, 39] s \<and> suffix [39, 93] s)"

record csv_row =
  songTitle :: jsstring
  hindiLyrics :: jsstring
  englishTranslation :: jsstring

text \<open>
  The world of an ingestion pass: \<open>JSON.parse\<close> (\<open>None\<close> when it throws, else the elements of
  the array), the texts for which \<open>generateEmbedding\<close> throws, and the rows whose insertion
  the store refuses.
\<close>

record ingestion =
  json_parse :: "jsstring \<Rightarrow> json_value list option"
  embedding_throws_for :: "jsstring \<Rightarrow> bool"
  insert_fails_for :: "lyrics_row \<Rightarrow> bool"

text \<open>The cleaning of the Hindi lyrics: a text in list format is parsed, and on success
  replaced by its kept lines, joined by newlines and trimmed; if parsing fails the original
  is used.\<close>

definition clean_hindi_lyrics :: "ingestion \<Rightarrow> jsstring \<Rightarrow> jsstring" where
  "clean_hindi_lyrics w raw_lyrics =
     (if list_literal raw_lyrics then
        (case json_parse w (replace_quotes raw_lyrics) of
           Some lyricsArray \<Rightarrow> trim (join [10] (map join_string (filter keep_line lyricsArray)))
         | None \<Rightarrow> raw_lyrics)
      else raw_lyrics)"

text \<open>One turn of the loop: \<open>None\<close> when the song is skipped, else the row inserted into
  \<open>lyrics_index\<close>.\<close>

definition process_song :: "ingestion \<Rightarrow> csv_row \<Rightarrow> lyrics_row option" where
  "process_song w song_row =
     (if songTitle song_row = [] \<or> hindiLyrics song_row = [] then None
      else
        let cleanLyrics = clean_hindi_lyrics w (hindiLyrics song_row) in
        if cleanLyrics = [] \<or> length cleanLyrics < 10 then None
        else if embedding_throws_for w cleanLyrics then None
        else if insert_fails_for w \<lparr>song_name = songTitle song_row, lyrics_text = cleanLyrics\<rparr>
        then None
        else Some \<lparr>song_name = songTitle song_row, lyrics_text = cleanLyrics\<rparr>)"

text \<open>The rows that a pass over the parsed CSV inserts, in order.\<close>

definition processLyricsCSV :: "ingestion \<Rightarrow> csv_row list \<Rightarrow> lyrics_row list" where
  "processLyricsCSV w lyricsData = List.map_filter (process_song w) lyricsData"

text \<open>
  A parser for the worlds below: it reads a JSON array of string literals, with the
  escape sequences of JSON (a backslash followed by a double quote, a backslash, a slash,
  one of the letters \<open>b\<close>, \<open>f\<close>, \<open>n\<close>, \<open>r\<close>, \<open>t\<close>, or \<open>u\<close> and four hexadecimal digits), and
  rejects every other text, an array with an element that is not a string among them; on
  the arrays it accepts it agrees with \<open>JSON.parse\<close>.
\<close>

definition is_json_space :: "nat \<Rightarrow> bool" where
  "is_json_space c = (c = 32 \<or> c = 9 \<or> c = 10 \<or> c = 13)"

definition hex_value :: "nat \<Rightarrow> nat option" where
  "hex_value c =
     (if 48 \<le> c \<and> c \<le> 57 then Some (c - 48)
      else if 65 \<le> c \<and> c \<le> 70 then Some (c - 55)
      else if 97 \<le> c \<and> c \<le> 102 then Some (c - 87)
      else None)"

definition escaped_unit :: "nat \<Rightarrow> nat option" where
  "escaped_unit c =
     (if c = 34 \<or> c = 92 \<or> c = 47 then Some c
      else if c = 98 then Some 8
      else if c = 102 then Some 12
      else if c = 110 then Some 10
      else if c = 114 then Some 13
      else if c = 116 then Some 9
      else None)"

datatype parse_state =
    BeforeElement
  | InString jsstring
  | AfterBackslash jsstring
  | InUnicode jsstring "nat list"
  | AfterElement

fun parse_elements :: "parse_state \<Rightarrow> json_value list \<Rightarrow> jsstring \<Rightarrow> json_value list option" where
  "parse_elements st acc [] = None"
| "parse_elements BeforeElement acc (c # cs) =
     (if c = 34 then parse_elements (InString []) acc cs
      else if is_json_space c then parse_elements BeforeElement acc cs
      else if c = 93 \<and> acc = [] \<and> list_all is_json_space cs then Some []
      else None)"
| "parse_elements (InString cur) acc (c # cs) =
     (if c = 34 then parse_elements AfterElement (acc @ [JStr cur]) cs
      else if c = 92 then parse_elements (AfterBackslash cur) acc cs
      else if c < 32 then None
      else parse_elements (InString (cur @ [c])) acc cs)"
| "parse_elements (AfterBackslash cur) acc (c # cs) =
     (if c = 117 then parse_elements (InUnicode cur []) acc cs
      else case escaped_unit c of
             None \<Rightarrow> None
           | Some u \<Rightarrow> parse_elements (InString (cur @ [u])) acc cs)"
| "parse_elements (InUnicode cur digits) acc (c # cs) =
     (case hex_value c of
        None \<Rightarrow> None
      | Some v \<Rightarrow>
          if length digits = 3
          then parse_elements (InString (cur @ [foldl (\<lambda>n d. 16 * n + d) 0 (digits @ [v])])) acc cs
          else parse_elements (InUnicode cur (digits @ [v])) acc cs)"
| "parse_elements AfterElement acc (c # cs) =
     (if c = 44 then parse_elements BeforeElement acc cs
      else if is_json_space c then parse_elements AfterElement acc cs
      else if c = 93 \<and> list_all is_json_space cs then Some acc
      else None)"

definition parse_string_array :: "jsstring \<Rightarrow> json_value list option" where
  "parse_string_array s =
     (case dropWhile is_json_space s of
        [] \<Rightarrow> None
      | c # cs \<Rightarrow> if c = 91 then parse_elements BeforeElement [] cs else None)"

section \<open>Concrete worlds\<close>

text \<open>
  The strings of the worlds below have code units under 256 only (ASCII and Latin-1).
  On such strings \<open>toLowerCase\<close> works unit by unit: it adds 32 to the capital letters
  \<open>A\<close> to \<open>Z\<close> and \<open>U+00C0\<close> to \<open>U+00DE\<close> (the multiplication sign \<open>U+00D7\<close> apart) and leaves
  every other unit. The worlds take this function for their \<open>toLowerCase\<close>.
\<close>

definition lower_unit :: "nat \<Rightarrow> nat" where
  "lower_unit c = (if (65 \<le> c \<and> c \<le> 90) \<or> (192 \<le> c \<and> c \<le> 222 \<and> c \<noteq> 215) then c + 32 else c)"

definition lower_latin1 :: "jsstring \<Rightarrow> jsstring" where
  "lower_latin1 s = map lower_unit s"

text \<open>Retrieval worlds: an empty corpus whose embedding service is down, and a corpus of
  two rows whose names both contain the word \<open>love\<close>.\<close>

definition world_empty :: retrieval where
  "world_empty =
     \<lparr>toLowerCase = lower_latin1, embedding_throws = True, similarity_of = (\<lambda>r. None), lyrics_index = [],
      rpc_mode = DbAnswers, or_mode = DbAnswers, select_mode = DbAnswers\<rparr>"

definition row_one :: lyrics_row where
  "row_one = \<lparr>song_name = str ''love one'', lyrics_text = str ''pehla gaana''\<rparr>"

definition row_two :: lyrics_row where
  "row_two = \<lparr>song_name = str ''love two'', lyrics_text = str ''doosra gaana''\<rparr>"

definition world_two :: retrieval where
  "world_two = world_empty\<lparr>lyrics_index := [row_one, row_two]\<rparr>"

text \<open>A world in which every call of every service fails with a network error.\<close>

definition env_down :: env where
  "env_down =
     \<lparr>corpus = world_empty,
      gen_api = (\<lambda>request k. Inl (str ''fetch failed'')),
      create_api = (\<lambda>request k. Inl (str ''fetch failed'')),
      status_api = (\<lambda>taskId k. FetchRejects (str ''fetch failed'')),
      date_now = 1700000000000,
      iso_now = str ''2023-11-14T22:13:20.000Z'',
      random36 = str ''0.4fzyo82mvyr''\<rparr>"

text \<open>A song that the pipeline has submitted: status \<open>generating\<close>, task id \<open>task_1\<close>.\<close>

definition song_generating :: song where
  "song_generating =
     \<lparr>title = str ''Dil Ki Baat'', lyrics = Some (str ''[Verse] la la''),
      tags = Some (str ''bollywood, hindi''), reference_songs = [],
      task_id = Some (str ''task_1''), clip_id = None, audio_url = None, video_url = None,
      image_url = None, duration = None, status = SGenerating, error_message = None,
      completed_at = None\<rparr>"

definition db_generating :: db where
  "db_generating = \<lparr>row = song_generating, updates = []\<rparr>"

text \<open>A clip that succeeded, of duration 180.5 seconds, and a world whose status endpoint
  answers 202 three times and then sends that clip.\<close>

definition clip_ready :: clip where
  "clip_ready =
     \<lparr>c_clip_id = str ''clip_9'', c_title = str ''Dil Ki Baat'', c_tags = str ''bollywood'',
      c_lyrics = str ''[Verse] la la'', c_image_url = str ''https://cdn1.suno.ai/9.jpg'',
      c_audio_url = str ''https://cdn1.suno.ai/9.mp3'',
      c_video_url = str ''https://cdn1.suno.ai/9.mp4'',
      c_created_at = str ''2023-11-14T22:13:20.000Z'', c_mv = str ''chirp-v5'',
      c_duration = 361 / 2, c_state = CSucceeded\<rparr>"

definition env_ready_after_3 :: env where
  "env_ready_after_3 =
     env_down\<lparr>status_api := (\<lambda>taskId k.
        if k < 3 then NotReady202 (Inr None)
        else Ok2xx (Inr \<lparr>code = 200, data = Some [clip_ready], message = Some (str ''success'')\<rparr>))\<rparr>"

text \<open>A generated text whose only section marker is interrupted by two stars.\<close>

definition raw_hidden_marker :: jsstring where
  "raw_hidden_marker = str ''hello [Ver**se] x''"

text \<open>A generated text with a preamble, bold section labels and a closing note.\<close>

definition raw_song :: jsstring where
  "raw_song = str ''Song: **[Verse]**'' @ [10] @ str ''la la'' @ [10, 10] @ str ''Note: slow''"

definition cleaned_song :: jsstring where
  "cleaned_song = str ''[Verse]'' @ [10] @ str ''la la''"

definition song_untrimmed :: jsstring where
  "song_untrimmed = str ''[Verse]'' @ [10] @ str ''la la'' @ [10, 10]"

text \<open>A request without lyrics of its own, and a song that has failed but has a task id,
  in a world whose status endpoint answers 202.\<close>

definition params_plain :: song_params where
  "params_plain =
     \<lparr>p_title = str ''Dil Ki Baat'', p_theme = str ''love'', p_genre = None,
      p_styles = [], p_customLyrics = None\<rparr>"



text \<open>
  An ingestion world in which every call succeeds, a row in the list format of the
  dataset, and a row whose list was printed with a double-quoted first element (as Python
  prints a string that contains an apostrophe), so that it does not start with \<open>['\<close>.
\<close>

definition ingestion_ok :: ingestion where
  "ingestion_ok =
     \<lparr>json_parse = parse_string_array, embedding_throws_for = (\<lambda>t. False),
      insert_fails_for = (\<lambda>r. False)\<rparr>"

definition lyrics_listed :: jsstring where
  "lyrics_listed = [91, 39] @ str ''Lyrics'' @ [39, 44, 32, 39] @ str ''1'' @ [39, 44, 32, 39] @
                   str ''Dil se re'' @ [39, 44, 32, 39] @ str ''Dil to pagal hai'' @ [39, 93]"

definition lyrics_double_quoted :: jsstring where
  "lyrics_double_quoted = [91, 34] @ str ''It'' @ [39] @ str ''s my life'' @ [34, 44, 32, 39] @
                          str ''Lyrics'' @ [39, 44, 32, 39] @ str ''1'' @ [39, 93]"

definition row_listed :: csv_row where
  "row_listed = \<lparr>songTitle = str ''Dil Se'', hindiLyrics = lyrics_listed, englishTranslation = []\<rparr>"

definition row_double_quoted :: csv_row where
  "row_double_quoted =
     \<lparr>songTitle = str ''My Life'', hindiLyrics = lyrics_double_quoted, englishTranslation = []\<rparr>"

section \<open>Properties of completion polling\<close>

lemma getTaskStatus_fst: "fst (getTaskStatus e t s) = status_result e t (status_calls s)"
  by (simp add: getTaskStatus_def status_result_def Let_def io0_def split: http_reply.splits sum.splits)

lemma getTaskStatus_snd: "snd (getTaskStatus e t s) = s\<lparr>status_calls := Suc (status_calls s)\<rparr>"
  by (simp add: getTaskStatus_def Let_def split: http_reply.splits sum.splits)

lemma getTaskStatus_eq:
  "getTaskStatus e t s = (x, s1) \<Longrightarrow> status_result e t (status_calls s) = x"
  using getTaskStatus_fst [of e t s] by simp

lemma getTaskStatus_calls:
  "getTaskStatus e t s = (x, s1) \<Longrightarrow> status_calls s1 = Suc (status_calls s)"
  using getTaskStatus_snd [of e t s] by simp

lemma status_calls_wait [simp]:
  "status_calls (wait_backoff a n iv s) = status_calls s"
  "status_calls (wait_interval a n iv s) = status_calls s"
  by (simp_all add: wait_backoff_def wait_interval_def sleep_def)

lemma poll_loop_returned:
  "poll_loop e t n iv a le s = (Returned r, s') \<Longrightarrow> \<exists>k. status_result e t k = Inr r"
proof (induction e t n iv a le s rule: poll_loop.induct)
  case (1 e t n iv a le s)
  from "1.prems" "1.IH" show ?case
    by (subst (asm) poll_loop.simps)
       (auto split: if_splits prod.splits sum.splits option.splits dest: getTaskStatus_eq)
qed

text \<open>Every attempt throws: the loop runs out with the error of the last attempt.\<close>

lemma poll_loop_all_throw:
  "\<forall>k. status_calls s \<le> k \<and> k < status_calls s + (n - a) \<longrightarrow> isl (status_result e t k) \<Longrightarrow>
     \<exists>s'. poll_loop e t n iv a le s =
       (Exhausted (if a < n then Some (projl (status_result e t (status_calls s + (n - a) - 1))) else le), s')"
proof (induction e t n iv a le s rule: poll_loop.induct)
  case (1 e t n iv a le s)
  show ?case
  proof (cases "a < n")
    case False
    then show ?thesis by (simp add: poll_loop.simps)
  next
    case True
    obtain y s1 where g: "getTaskStatus e t s = (y, s1)" by (cases "getTaskStatus e t s")
    have y: "status_result e t (status_calls s) = y" using g by (rule getTaskStatus_eq)
    have "isl (status_result e t (status_calls s))" using "1.prems" True by simp
    with y obtain m where m: "y = Inl m" by (cases y) auto
    have s1: "status_calls s1 = Suc (status_calls s)" using g by (rule getTaskStatus_calls)
    have range: "\<forall>k. status_calls (wait_backoff a n iv s1) \<le> k \<and>
        k < status_calls (wait_backoff a n iv s1) + (n - Suc a) \<longrightarrow> isl (status_result e t k)"
    proof (intro allI impI)
      fix k
      assume "status_calls (wait_backoff a n iv s1) \<le> k \<and>
        k < status_calls (wait_backoff a n iv s1) + (n - Suc a)"
      with s1 True have "status_calls s \<le> k \<and> k < status_calls s + (n - a)" by auto
      with "1.prems" show "isl (status_result e t k)" by blast
    qed
    from "1.IH"(1) [OF True g [symmetric] m range]
    obtain s' where r: "poll_loop e t n iv (Suc a) (Some m) (wait_backoff a n iv s1) =
       (Exhausted (if Suc a < n
          then Some (projl (status_result e t (status_calls (wait_backoff a n iv s1) + (n - Suc a) - 1)))
          else Some m), s')" by blast
    have step: "poll_loop e t n iv a le s = poll_loop e t n iv (Suc a) (Some m) (wait_backoff a n iv s1)"
      using True g m by (subst poll_loop.simps) simp
    show ?thesis
    proof (cases "Suc a < n")
      case True
      then have "status_calls s1 + (n - Suc a) - 1 = status_calls s + (n - a) - 1"
        using s1 by simp
      with r step True \<open>a < n\<close> show ?thesis by simp
    next
      case False
      with \<open>a < n\<close> have "n - a = 1" by simp
      with r step False \<open>a < n\<close> y m show ?thesis by simp
    qed
  qed
qed

text \<open>Responses of code 202 use up attempts and change nothing else.\<close>

lemma poll_loop_not_ready:
  "\<forall>k. status_calls s \<le> k \<and> k < status_calls s + j \<longrightarrow>
        (\<exists>r. status_result e t k = Inr r \<and> code r = 202) \<Longrightarrow>
   a + j \<le> n \<Longrightarrow>
   \<exists>s1. status_calls s1 = status_calls s + j \<and>
        poll_loop e t n iv a le s = poll_loop e t n iv (a + j) le s1"
proof (induction j arbitrary: a s)
  case 0
  show ?case by (rule exI [of _ s]) simp
next
  case (Suc j)
  obtain y s1 where g: "getTaskStatus e t s = (y, s1)" by (cases "getTaskStatus e t s")
  have y: "status_result e t (status_calls s) = y" using g by (rule getTaskStatus_eq)
  from Suc.prems(1) y obtain r where r: "y = Inr r" "code r = 202" by force
  have s1: "status_calls s1 = Suc (status_calls s)" using g by (rule getTaskStatus_calls)
  have step: "poll_loop e t n iv a le s = poll_loop e t n iv (Suc a) le (wait_interval a n iv s1)"
    using Suc.prems(2) g r by (subst poll_loop.simps) simp
  have "\<forall>k. status_calls (wait_interval a n iv s1) \<le> k \<and>
        k < status_calls (wait_interval a n iv s1) + j \<longrightarrow>
        (\<exists>r. status_result e t k = Inr r \<and> code r = 202)"
    using Suc.prems(1) s1 by simp
  from Suc.IH [OF this, of "Suc a"] Suc.prems(2)
  obtain s2 where "status_calls s2 = status_calls (wait_interval a n iv s1) + j"
    "poll_loop e t n iv (Suc a) le (wait_interval a n iv s1) = poll_loop e t n iv (Suc a + j) le s2"
    by auto
  with step s1 show ?case by auto
qed

lemma pollTaskCompletion_mock:
  "prefix (str ''mock_'') t \<Longrightarrow>
     pollTaskCompletion e (Some t) n iv s = (Inr (mock_response e t), sleep 2000 s)"
  by (simp add: pollTaskCompletion_def)

lemma pollTaskCompletion_all_throw:
  assumes "\<not> prefix (str ''mock_'') t"
    and "\<forall>k. status_calls s \<le> k \<and> k < status_calls s + n \<longrightarrow> isl (status_result e t k)"
    and "0 < n"
  shows "\<exists>s'. pollTaskCompletion e (Some t) n iv s =
     (Inr \<lparr>code = 500, data = Some [],
           message = Some (str ''Polling failed: '' @ projl (status_result e t (status_calls s + n - 1)))\<rparr>, s')"
proof -
  from assms(2) have "\<forall>k. status_calls s \<le> k \<and> k < status_calls s + (n - 0) \<longrightarrow> isl (status_result e t k)"
    by simp
  from poll_loop_all_throw [OF this, of iv None] assms(3)
  obtain s' where "poll_loop e t n iv 0 None s =
      (Exhausted (Some (projl (status_result e t (status_calls s + n - 1)))), s')" by auto
  with assms(1) show ?thesis by (simp add: pollTaskCompletion_def)
qed

lemma pollTaskCompletion_no_attempts:
  assumes "\<not> prefix (str ''mock_'') t" and "status_result e t (status_calls s) = Inl m"
  shows "\<exists>s'. pollTaskCompletion e (Some t) 0 iv s =
     (Inr \<lparr>code = 500, data = Some [],
           message = Some (str ''Final status check failed: '' @ m)\<rparr>, s')"
proof -
  obtain y s1 where g: "getTaskStatus e t s = (y, s1)" by (cases "getTaskStatus e t s")
  with assms(2) have "y = Inl m" by (auto dest: getTaskStatus_eq)
  with g assms(1) show ?thesis
    by (simp add: pollTaskCompletion_def poll_loop.simps)
qed

lemma pollTaskCompletion_shape:
  assumes nm: "\<not> prefix (str ''mock_'') t"
  shows "\<exists>r s'. pollTaskCompletion e (Some t) n iv s = (Inr r, s') \<and>
     ((\<exists>k. status_result e t k = Inr r) \<or>
      (code r = 500 \<and> data r = Some [] \<and>
       (\<exists>m. message r = Some (str ''Polling failed: '' @ m) \<or>
            message r = Some (str ''Final status check failed: '' @ m))))"
proof -
  obtain x s1 where l: "poll_loop e t n iv 0 None s = (x, s1)"
    by (cases "poll_loop e t n iv 0 None s")
  obtain y s2 where g: "getTaskStatus e t s1 = (y, s2)"
    by (cases "getTaskStatus e t s1")
  show ?thesis
  proof (cases x)
    case (Returned r)
    with l have "\<exists>k. status_result e t k = Inr r" by (auto dest: poll_loop_returned)
    moreover have "pollTaskCompletion e (Some t) n iv s = (Inr r, s1)"
      using nm l Returned by (simp add: pollTaskCompletion_def)
    ultimately show ?thesis by blast
  next
    case (Exhausted le)
    show ?thesis
    proof (cases le)
      case (Some m)
      have "pollTaskCompletion e (Some t) n iv s =
         (Inr \<lparr>code = 500, data = Some [], message = Some (str ''Polling failed: '' @ m)\<rparr>, s1)"
        using nm l Exhausted Some by (simp add: pollTaskCompletion_def)
      then show ?thesis by fastforce
    next
      case None
      show ?thesis
      proof (cases y)
        case (Inl m)
        have "pollTaskCompletion e (Some t) n iv s =
          (Inr \<lparr>code = 500, data = Some [],
                message = Some (str ''Final status check failed: '' @ m)\<rparr>, s2)"
          using nm l Exhausted None g Inl by (simp add: pollTaskCompletion_def)
        then show ?thesis by fastforce
      next
        case (Inr r)
        with g have "status_result e t (status_calls s1) = Inr r"
          by (auto dest: getTaskStatus_eq)
        then have "\<exists>k. status_result e t k = Inr r" ..
        moreover have "pollTaskCompletion e (Some t) n iv s = (Inr r, s2)"
          using nm l Exhausted None g Inr by (simp add: pollTaskCompletion_def)
        ultimately show ?thesis by blast
      qed
    qed
  qed
qed

text \<open>
  C10 (as amended). For every task id that is a string, and for every attempt budget,
  interval and behaviour of the service, \<open>pollTaskCompletion\<close> returns a response and never
  throws (the result is never \<open>Inl\<close>). The response is the mock response, or one that the
  status endpoint sent, or the code 500 response with no clips whose message begins
  \<open>Polling failed: \<close> or \<open>Final status check failed: \<close>. When the id is not a mock id and
  every status call of the run throws, the response is the code 500 one:
  \<open>Polling failed: \<close> when there was at least one attempt,
  \<open>Final status check failed: \<close> when the budget was 0.
\<close>

theorem pollTaskCompletion_never_throws:
  "\<exists>r s'. pollTaskCompletion e (Some taskId) maxAttempts intervalMs s = (Inr r, s') \<and>
     (r = mock_response e taskId \<or> (\<exists>k. status_result e taskId k = Inr r) \<or>
      (code r = 500 \<and> data r = Some [] \<and>
       (\<exists>m. message r = Some (str ''Polling failed: '' @ m) \<or>
            message r = Some (str ''Final status check failed: '' @ m)))) \<and>
     (\<not> prefix (str ''mock_'') taskId \<and>
      (\<forall>k. status_calls s \<le> k \<and> k \<le> status_calls s + maxAttempts
           \<longrightarrow> isl (status_result e taskId k)) \<longrightarrow>
      code r = 500 \<and> data r = Some [] \<and>
      (\<exists>m. message r =
         Some ((if 0 < maxAttempts then str ''Polling failed: ''
                else str ''Final status check failed: '') @ m)))"
proof (cases "prefix (str ''mock_'') taskId")
  case True
  have "pollTaskCompletion e (Some taskId) maxAttempts intervalMs s =
      (Inr (mock_response e taskId), sleep 2000 s)"
    using True by (rule pollTaskCompletion_mock)
  with True show ?thesis by blast
next
  case False
  from pollTaskCompletion_shape [OF False, of e maxAttempts intervalMs s]
  obtain r s' where eq: "pollTaskCompletion e (Some taskId) maxAttempts intervalMs s = (Inr r, s')"
    and shape: "(\<exists>k. status_result e taskId k = Inr r) \<or>
      (code r = 500 \<and> data r = Some [] \<and>
       (\<exists>m. message r = Some (str ''Polling failed: '' @ m) \<or>
            message r = Some (str ''Final status check failed: '' @ m)))"
    by blast
  have failing: "code r = 500 \<and> data r = Some [] \<and>
      (\<exists>m. message r =
         Some ((if 0 < maxAttempts then str ''Polling failed: ''
                else str ''Final status check failed: '') @ m))"
    if all: "\<forall>k. status_calls s \<le> k \<and> k \<le> status_calls s + maxAttempts
           \<longrightarrow> isl (status_result e taskId k)"
  proof (cases "0 < maxAttempts")
    case True
    from all have "\<forall>k. status_calls s \<le> k \<and> k < status_calls s + maxAttempts
           \<longrightarrow> isl (status_result e taskId k)" by simp
    from pollTaskCompletion_all_throw [OF False this True, of intervalMs] eq
    obtain m where "r = \<lparr>code = 500, data = Some [],
        message = Some (str ''Polling failed: '' @ m)\<rparr>" by auto
    with True show ?thesis by simp
  next
    case zero: False
    from all have "isl (status_result e taskId (status_calls s))" by simp
    then obtain m where "status_result e taskId (status_calls s) = Inl m"
      by (cases "status_result e taskId (status_calls s)") auto
    from pollTaskCompletion_no_attempts [OF False this, of intervalMs] eq zero
    have "r = \<lparr>code = 500, data = Some [],
        message = Some (str ''Final status check failed: '' @ m)\<rparr>" by auto
    with zero show ?thesis by simp
  qed
  have A: "r = mock_response e taskId \<or> (\<exists>k. status_result e taskId k = Inr r) \<or>
      (code r = 500 \<and> data r = Some [] \<and>
       (\<exists>m. message r = Some (str ''Polling failed: '' @ m) \<or>
            message r = Some (str ''Final status check failed: '' @ m)))"
    using shape by (rule disjI2)
  have B: "\<not> prefix (str ''mock_'') taskId \<and>
      (\<forall>k. status_calls s \<le> k \<and> k \<le> status_calls s + maxAttempts
           \<longrightarrow> isl (status_result e taskId k)) \<longrightarrow>
      code r = 500 \<and> data r = Some [] \<and>
      (\<exists>m. message r =
         Some ((if 0 < maxAttempts then str ''Polling failed: ''
                else str ''Final status check failed: '') @ m))"
  proof
    assume "\<not> prefix (str ''mock_'') taskId \<and>
      (\<forall>k. status_calls s \<le> k \<and> k \<le> status_calls s + maxAttempts
           \<longrightarrow> isl (status_result e taskId k))"
    then have "\<forall>k. status_calls s \<le> k \<and> k \<le> status_calls s + maxAttempts
           \<longrightarrow> isl (status_result e taskId k)" ..
    then show "code r = 500 \<and> data r = Some [] \<and>
      (\<exists>m. message r =
         Some ((if 0 < maxAttempts then str ''Polling failed: ''
                else str ''Final status check failed: '') @ m))" by (rule failing)
  qed
  from eq A B show ?thesis
    by - (rule exI [of _ r], rule exI [of _ s'], intro conjI, assumption+)
qed

theorem pollTaskCompletion_never_throws_witness:
  "\<not> prefix (str ''mock_'') (str ''task_1'') \<and>
   (\<exists>r s'. pollTaskCompletion env_down (Some (str ''task_1'')) 15 30000 io0 = (Inr r, s') \<and>
      code r = 500 \<and> data r = Some [] \<and>
      (\<exists>m. message r = Some (str ''Polling failed: '' @ m)))"
proof -
  have h: "\<not> prefix (str ''mock_'') (str ''task_1'') \<and>
    (\<forall>k. status_calls io0 \<le> k \<and> k \<le> status_calls io0 + 15
         \<longrightarrow> isl (status_result env_down (str ''task_1'') k))"
    by (simp add: str_def status_result_def getTaskStatus_def env_down_def)
  from pollTaskCompletion_never_throws [of env_down "str ''task_1''" 15 30000 io0] h
  show ?thesis by auto
qed

text \<open>
  The claim as written, for every task id, fails at the id the background task passes when
  no task was created: on \<open>undefined\<close> the call \<open>taskId.startsWith\<close> throws before any
  \<open>try\<close> is entered, no status call is made, and the error leaves the function.
\<close>

theorem pollTaskCompletion_undefined_counterexample:
  "pollTaskCompletion env_down None 15 30000 io0 = (Inl startsWith_of_undefined, io0)"
  by (simp add: pollTaskCompletion_def)

section \<open>Properties of the song's completion\<close>

lemma pollSongCompletion_all_throw:
  assumes "\<not> prefix (str ''mock_'') tid"
    and "\<forall>k. status_calls s \<le> k \<and> k < status_calls s + 15 \<longrightarrow> isl (status_result e tid k)"
  shows "fst (pollSongCompletion e (Some tid) (d, s)) =
     updateSong (set_status SFailed (str ''Song generation timed out'')) d"
proof -
  from pollTaskCompletion_all_throw [OF assms(1) assms(2), of 30000]
  obtain s' where "pollTaskCompletion e (Some tid) 15 30000 s =
     (Inr \<lparr>code = 500, data = Some [],
           message = Some (str ''Polling failed: '' @ projl (status_result e tid (status_calls s + 15 - 1)))\<rparr>, s')"
    by auto
  then show ?thesis by (simp add: pollSongCompletion_def)
qed

lemma row_updateSong_status:
  "status (row (updateSong (set_status st msg) d)) = st"
  "error_message (row (updateSong (set_status st msg) d)) = Some msg"
  "status_writes (updateSong (set_status st msg) d) = status_writes d @ [st]"
  by (simp_all add: updateSong_def set_status_def apply_update_def no_update_def
      set_field_def status_writes_def List.map_filter_def)

lemma timed_out_text:
  "\<not> js_includes (str ''Song generation timed out'') (str ''Polling failed'')"
  by (simp add: str_def)

lemma pollSongCompletion_transport_errors:
  assumes "\<not> prefix (str ''mock_'') tid"
    and "\<forall>k. status_calls s \<le> k \<and> k < status_calls s + 15 \<longrightarrow> isl (status_result e tid k)"
  shows "status (row (fst (pollSongCompletion e (Some tid) (d, s)))) = SFailed \<and>
     error_message (row (fst (pollSongCompletion e (Some tid) (d, s)))) =
       Some (str ''Song generation timed out'') \<and>
     status_writes (fst (pollSongCompletion e (Some tid) (d, s))) = status_writes d @ [SFailed] \<and>
     (\<exists>r s'. pollTaskCompletion e (Some tid) 15 30000 s = (Inr r, s') \<and> code r = 500 \<and>
        data r = Some [] \<and> (\<exists>m. message r = Some (str ''Polling failed: '' @ m)))"
proof -
  have "fst (pollSongCompletion e (Some tid) (d, s)) =
     updateSong (set_status SFailed (str ''Song generation timed out'')) d"
    using assms by (rule pollSongCompletion_all_throw)
  moreover from pollTaskCompletion_all_throw [OF assms(1) assms(2), of 30000]
  have "\<exists>r s'. pollTaskCompletion e (Some tid) 15 30000 s = (Inr r, s') \<and> code r = 500 \<and>
        data r = Some [] \<and> (\<exists>m. message r = Some (str ''Polling failed: '' @ m))" by auto
  ultimately show ?thesis by (simp add: row_updateSong_status)
qed

lemma env_down_throws: "status_result env_down tid k = Inl (str ''fetch failed'')"
  by (simp add: status_result_def getTaskStatus_def env_down_def)

lemma task_1_not_mock: "\<not> prefix (str ''mock_'') (str ''task_1'')"
  by (simp add: str_def)

text \<open>
  C1. The claim: when every attempt of the polling loop fails in transport, the song ends
  \<open>failed\<close> with an error message that contains \<open>Polling failed\<close>. The code at such an input,
  the task \<open>task_1\<close> of a song that is \<open>generating\<close>, with every one of the 15 status calls
  rejected (\<open>fetch failed\<close>): \<open>pollTaskCompletion\<close> returns the code 500 response with the
  message \<open>Polling failed: fetch failed\<close> and the empty clip list \<open>data: []\<close>. The branch of
  \<open>pollSongCompletion\<close> that tests for code 500 and \<open>Polling failed\<close> (its comment: "If it's
  a polling failure (code 500), mark as generating instead of failed") stands under
  \<open>!result.data || !Array.isArray(result.data)\<close>, which an empty array does not satisfy, so
  it is never taken for this response. No clip has succeeded or failed, and the song is
  written \<open>failed\<close> with the message \<open>Song generation timed out\<close>, which does not contain
  \<open>Polling failed\<close>.
\<close>

theorem pollSongCompletion_polling_failed_response_times_out:
  "(\<exists>s'. pollTaskCompletion env_down (Some (str ''task_1'')) 15 30000 io0 =
      (Inr \<lparr>code = 500, data = Some [],
            message = Some (str ''Polling failed: fetch failed'')\<rparr>, s')) \<and>
   status (row (fst (pollSongCompletion env_down (Some (str ''task_1'')) (db_generating, io0)))) = SFailed \<and>
   error_message (row (fst (pollSongCompletion env_down (Some (str ''task_1'')) (db_generating, io0)))) =
     Some (str ''Song generation timed out'') \<and>
   \<not> js_includes (str ''Song generation timed out'') (str ''Polling failed'')"
proof -
  have all: "\<forall>k. status_calls io0 \<le> k \<and> k < status_calls io0 + 15 \<longrightarrow>
      isl (status_result env_down (str ''task_1'') k)"
    by (simp add: env_down_throws)
  have "str ''Polling failed: '' @ str ''fetch failed'' = str ''Polling failed: fetch failed''"
    by (simp add: str_def)
  with pollTaskCompletion_all_throw [OF task_1_not_mock all, of 30000]
  have 1: "\<exists>s'. pollTaskCompletion env_down (Some (str ''task_1'')) 15 30000 io0 =
      (Inr \<lparr>code = 500, data = Some [],
            message = Some (str ''Polling failed: fetch failed'')\<rparr>, s')"
    by (simp add: env_down_throws)
  have "fst (pollSongCompletion env_down (Some (str ''task_1'')) (db_generating, io0)) =
     updateSong (set_status SFailed (str ''Song generation timed out'')) db_generating"
    using task_1_not_mock all by (rule pollSongCompletion_all_throw)
  with 1 show ?thesis by (simp add: row_updateSong_status timed_out_text)
qed

lemma find_Some_list_ex: "find P xs = Some x \<Longrightarrow> list_ex P xs"
  by (induction xs) (auto split: if_splits)

lemma pollTaskCompletion_after_not_ready:
  assumes nm: "\<not> prefix (str ''mock_'') t"
    and j: "j \<le> n"
    and nr: "\<forall>k. status_calls s \<le> k \<and> k < status_calls s + j \<longrightarrow>
        (\<exists>r. status_result e t k = Inr r \<and> code r = 202)"
    and r: "status_result e t (status_calls s + j) = Inr r"
    and c: "code r \<noteq> 202" and d: "data r = Some clips" and h: "hasCompleted clips"
  shows "\<exists>s'. pollTaskCompletion e (Some t) n iv s = (Inr r, s')"
proof -
  from poll_loop_not_ready [OF nr, of 0 n iv None] j
  obtain s1 where s1: "status_calls s1 = status_calls s + j"
    and l: "poll_loop e t n iv 0 None s = poll_loop e t n iv j None s1" by auto
  obtain y s2 where g: "getTaskStatus e t s1 = (y, s2)" by (cases "getTaskStatus e t s1")
  with r s1 have y: "y = Inr r" by (auto dest: getTaskStatus_eq)
  show ?thesis
  proof (cases "j < n")
    case True
    have "poll_loop e t n iv j None s1 = (Returned r, s2)"
      using True g y c d h by (subst poll_loop.simps) simp
    with l nm show ?thesis by (simp add: pollTaskCompletion_def)
  next
    case False
    have "poll_loop e t n iv j None s1 = (Exhausted None, s1)"
      using False by (subst poll_loop.simps) simp
    with l nm g y show ?thesis by (simp add: pollTaskCompletion_def)
  qed
qed

lemma pollSongCompletion_succeeded:
  assumes "\<not> prefix (str ''mock_'') tid"
    and "j \<le> 15"
    and "\<forall>k. status_calls s \<le> k \<and> k < status_calls s + j \<longrightarrow>
        (\<exists>r. status_result e tid k = Inr r \<and> code r = 202)"
    and "status_result e tid (status_calls s + j) = Inr r"
    and "code r \<noteq> 202" and "data r = Some clips"
    and f: "find (\<lambda>clip. c_state clip = CSucceeded) clips = Some c"
  shows "fst (pollSongCompletion e (Some tid) (d, s)) = updateSong (completed_update e c) d"
proof -
  from f have "hasCompleted clips" unfolding hasCompleted_def by (rule find_Some_list_ex)
  from pollTaskCompletion_after_not_ready [OF assms(1-6) this, of 30000]
  obtain s' where "pollTaskCompletion e (Some tid) 15 30000 s = (Inr r, s')" by blast
  with assms(6) f show ?thesis by (simp add: pollSongCompletion_def)
qed

lemma row_updateSong_completed:
  "row (updateSong (completed_update e c) d) =
     (row d)\<lparr>status := SCompleted, clip_id := Some (c_clip_id c),
       audio_url := Some (c_audio_url c), video_url := Some (c_video_url c),
       image_url := Some (c_image_url c),
       duration := (if c_duration c = 0 then None else Some (js_round (c_duration c))),
       completed_at := Some (iso_now e), error_message := None\<rparr>"
  by (simp add: updateSong_def completed_update_def apply_update_def no_update_def
      set_field_def set_nullable_def)

text \<open>
  C7 (as amended). The status endpoint answers \<open>j \<le> 15\<close> times with code 202 and then
  sends a response, of another code, whose clips contain a succeeded one. Then
  \<open>pollSongCompletion\<close> moves the song to \<open>completed\<close> and stores the first succeeded
  clip's id and audio, video and image URLs, the clip's duration rounded to the nearest
  integer (\<open>null\<close> when the duration is 0), the completion time, and a null error message;
  the other fields of the row stay as they were.
\<close>

theorem pollSongCompletion_first_succeeded_clip:
  assumes "\<not> prefix (str ''mock_'') tid"
    and "j \<le> 15"
    and "\<forall>k. status_calls s \<le> k \<and> k < status_calls s + j \<longrightarrow>
        (\<exists>r. status_result e tid k = Inr r \<and> code r = 202)"
    and "status_result e tid (status_calls s + j) = Inr r"
    and "code r \<noteq> 202" and "data r = Some clips"
    and "find (\<lambda>clip. c_state clip = CSucceeded) clips = Some c"
  shows "row (fst (pollSongCompletion e (Some tid) (d, s))) =
     (row d)\<lparr>status := SCompleted, clip_id := Some (c_clip_id c),
       audio_url := Some (c_audio_url c), video_url := Some (c_video_url c),
       image_url := Some (c_image_url c),
       duration := (if c_duration c = 0 then None else Some (js_round (c_duration c))),
       completed_at := Some (iso_now e), error_message := None\<rparr>"
  using pollSongCompletion_succeeded [OF assms] by (simp add: row_updateSong_completed)

lemma env_ready_after_3_not_ready:
  "\<forall>k. status_calls io0 \<le> k \<and> k < status_calls io0 + 3 \<longrightarrow>
     (\<exists>r. status_result env_ready_after_3 (str ''task_1'') k = Inr r \<and> code r = 202)"
  by (simp add: status_result_def getTaskStatus_def env_ready_after_3_def io0_def)

lemma env_ready_after_3_ready:
  "status_result env_ready_after_3 (str ''task_1'') (status_calls io0 + 3) =
     Inr \<lparr>code = 200, data = Some [clip_ready], message = Some (str ''success'')\<rparr>"
  by (simp add: status_result_def getTaskStatus_def env_ready_after_3_def io0_def)

lemma find_clip_ready: "find (\<lambda>clip. c_state clip = CSucceeded) [clip_ready] = Some clip_ready"
  by (simp add: clip_ready_def)

theorem pollSongCompletion_first_succeeded_clip_witness:
  "status (row (fst (pollSongCompletion env_ready_after_3 (Some (str ''task_1'')) (db_generating, io0)))) = SCompleted \<and>
   audio_url (row (fst (pollSongCompletion env_ready_after_3 (Some (str ''task_1'')) (db_generating, io0)))) =
     Some (str ''https://cdn1.suno.ai/9.mp3'') \<and>
   completed_at (row (fst (pollSongCompletion env_ready_after_3 (Some (str ''task_1'')) (db_generating, io0)))) =
     Some (str ''2023-11-14T22:13:20.000Z'')"
  using pollSongCompletion_first_succeeded_clip
    [of "str ''task_1''" 3 io0 env_ready_after_3 _ "[clip_ready]" clip_ready db_generating,
     OF task_1_not_mock _ env_ready_after_3_not_ready env_ready_after_3_ready _ _ find_clip_ready]
  by (simp add: clip_ready_def env_ready_after_3_def env_down_def)

theorem pollSongCompletion_duration_counterexample:
  "find (\<lambda>clip. c_state clip = CSucceeded) [clip_ready] = Some clip_ready \<and>
   c_duration clip_ready = 361 / 2 \<and>
   duration (row (fst (pollSongCompletion env_ready_after_3 (Some (str ''task_1'')) (db_generating, io0)))) =
     Some 181"
proof -
  have "fst (pollSongCompletion env_ready_after_3 (Some (str ''task_1'')) (db_generating, io0)) =
      updateSong (completed_update env_ready_after_3 clip_ready) db_generating"
    by (rule pollSongCompletion_succeeded
          [of "str ''task_1''" 3 io0 env_ready_after_3 _ "[clip_ready]",
           OF task_1_not_mock _ env_ready_after_3_not_ready env_ready_after_3_ready _ _ find_clip_ready])
       simp_all
  then show ?thesis
    by (simp add: row_updateSong_completed find_clip_ready) (simp add: clip_ready_def js_round_def)
qed

section \<open>Properties of reference retrieval\<close>

lemma sublist_js_includes: "sublist p s \<Longrightarrow> js_includes s p"
proof -
  assume "sublist p s"
  then obtain ps ss where s: "s = ps @ p @ ss" by (auto simp: sublist_def)
  have "js_includes (ps @ p @ ss) p"
  proof (induction ps)
    case Nil
    show ?case
    proof (cases "p @ ss")
      case Nil
      then show ?thesis by simp
    next
      case (Cons a l)
      have "prefix p (p @ ss)" by simp
      with Cons show ?thesis by simp
    qed
  next
    case (Cons a ps)
    then show ?case by simp
  qed
  with s show ?thesis by simp
qed

lemma in_set_substrings: "part \<in> set (substrings s) \<longleftrightarrow> sublist part s"
  by (auto simp: substrings_def sublist_altdef')

lemma ilike_containsI:
  "sublist part txt \<Longrightarrow> toLowerCase w part = toLowerCase w keyword \<Longrightarrow> ilike_contains w txt keyword"
  unfolding ilike_contains_def list_ex_iff using in_set_substrings by blast

lemma matches_keywordI:
  "kw \<in> set kws \<Longrightarrow> ilike_contains w (song_name r) kw \<Longrightarrow> matches_keyword w kws r"
  by (auto simp: matches_keyword_def list_ex_iff)

lemma keyword_tier_answer:
  assumes "or_mode w = DbAnswers"
    and "r \<in> set (lyrics_index w)" and "matches_keyword w (theme_keywords w theme) r"
    and "theme_keywords w theme \<noteq> []"
    and "length (filter (matches_keyword w (theme_keywords w theme)) (lyrics_index w)) \<le> matchCount"
  shows "keyword_tier w theme matchCount =
      Return (map plain_reference (filter (matches_keyword w (theme_keywords w theme)) (lyrics_index w)))
    \<and> plain_reference r \<in> set (map plain_reference (filter (matches_keyword w (theme_keywords w theme)) (lyrics_index w)))"
proof -
  let ?hits = "filter (matches_keyword w (theme_keywords w theme)) (lyrics_index w)"
  have t: "or_ilike_limit w (theme_keywords w theme) matchCount = ?hits"
    using assms(5) by (simp add: or_ilike_limit_def)
  have r: "r \<in> set ?hits" using assms(2,3) by simp
  then have "?hits \<noteq> []" by (metis empty_iff list.set(1))
  with t assms(1,4) have "keyword_tier w theme matchCount = Return (map plain_reference ?hits)"
    by (simp add: keyword_tier_def Let_def)
  with r show ?thesis by simp
qed

text \<open>
  C6 (as amended). The keyword tier lower-cases the theme, splits it at white space and
  keeps the words longer than 2 that are not stop words: these are the keywords. It asks
  the store for the rows of which some keyword is a case-insensitive substring of the name
  or of the text, up to \<open>matchCount\<close> of them. Whatever \<open>toLowerCase\<close> does to the letters of
  the theme: when the store answers, a word of the lower-cased theme survives the filter,
  the name of a row contains that keyword (verbatim, or as a part that \<open>toLowerCase\<close> sends
  to the same string as the keyword), and at most \<open>matchCount\<close> rows match, the tier
  returns exactly the matching rows, that row among them; it is the result of
  \<open>findSimilarLyrics\<close> when the similarity tier has fallen through.
\<close>

theorem keyword_tier_includes_named_entry:
  assumes "or_mode w = DbAnswers"
    and "keyword \<in> set (split_ws (toLowerCase w theme))" and "2 < length keyword"
    and "keyword \<notin> set stop_words"
    and "r \<in> set (lyrics_index w)" and "sublist part (song_name r)"
    and "toLowerCase w part = toLowerCase w keyword"
    and "length (filter (matches_keyword w (theme_keywords w theme)) (lyrics_index w)) \<le> matchCount"
  shows "keyword \<in> set (theme_keywords w theme) \<and>
     (\<exists>rs. keyword_tier w theme matchCount = Return rs \<and>
        rs = map plain_reference (filter (matches_keyword w (theme_keywords w theme)) (lyrics_index w)) \<and>
        plain_reference r \<in> set rs \<and> length rs \<le> matchCount \<and>
        (embedding_tier w matchCount matchThreshold = FallThrough \<longrightarrow>
           findSimilarLyrics w theme matchCount matchThreshold = Inr rs))"
proof -
  have k: "keyword \<in> set (theme_keywords w theme)"
    using assms(2-4) by (simp add: theme_keywords_def)
  then have ne: "theme_keywords w theme \<noteq> []" by (metis empty_iff list.set(1))
  from assms(6,7) have "ilike_contains w (song_name r) keyword" by (rule ilike_containsI)
  with k have "matches_keyword w (theme_keywords w theme) r" by (rule matches_keywordI)
  from keyword_tier_answer [OF assms(1) assms(5) this ne assms(8)] k assms(8)
  show ?thesis by (simp add: findSimilarLyrics_def findSimilarLyrics_body_def)
qed

lemma world_two_simps:
  "or_mode world_two = DbAnswers" "select_mode world_two = DbAnswers"
  "embedding_throws world_two" "lyrics_index world_two = [row_one, row_two]"
  "or_mode world_empty = DbAnswers" "select_mode world_empty = DbAnswers"
  "embedding_throws world_empty" "lyrics_index world_empty = []"
  "toLowerCase world_two = lower_latin1" "toLowerCase world_empty = lower_latin1"
  by (simp_all add: world_two_def world_empty_def)

lemma love_lower: "lower_latin1 (str ''love'') = str ''love''"
  by (simp add: lower_latin1_def lower_unit_def str_def)

lemma love_split: "split_ws (str ''love'') = [str ''love'']"
  by (simp add: split_ws.simps str_def is_space_def)

lemma love_not_stop: "str ''love'' \<notin> set stop_words"
  by (simp add: stop_words_def str_def)

lemma love_keywords:
  "theme_keywords world_two (str ''love'') = [str ''love'']"
  "theme_keywords world_empty (str ''love'') = [str ''love'']"
  using love_not_stop
  by (simp_all add: theme_keywords_def world_two_simps love_lower love_split) (simp_all add: str_def)

lemma love_in_name:
  "sublist (str ''love'') (song_name row_one)" "sublist (str ''love'') (song_name row_two)"
proof -
  have "song_name row_one = [] @ str ''love'' @ str '' one''"
    by (simp add: row_one_def str_def)
  then show "sublist (str ''love'') (song_name row_one)" unfolding sublist_def by blast
  have "song_name row_two = [] @ str ''love'' @ str '' two''"
    by (simp add: row_two_def str_def)
  then show "sublist (str ''love'') (song_name row_two)" unfolding sublist_def by blast
qed

lemma love_hits:
  "filter (matches_keyword world_two [str ''love'']) [row_one, row_two] = [row_one, row_two]"
proof -
  have "ilike_contains world_two (song_name row_one) (str ''love'')"
    using love_in_name(1) by (rule ilike_containsI) simp
  then have 1: "matches_keyword world_two [str ''love''] row_one"
    by (simp add: matches_keyword_def)
  have "ilike_contains world_two (song_name row_two) (str ''love'')"
    using love_in_name(2) by (rule ilike_containsI) simp
  then have 2: "matches_keyword world_two [str ''love''] row_two"
    by (simp add: matches_keyword_def)
  from 1 2 show ?thesis by simp
qed

lemma love_hits_world_two:
  "filter (matches_keyword world_two (theme_keywords world_two (str ''love''))) (lyrics_index world_two) =
     [row_one, row_two]"
  using love_hits by (simp add: love_keywords world_two_simps)

theorem keyword_tier_includes_named_entry_witness:
  "str ''love'' \<in> set (theme_keywords world_two (str ''love'')) \<and>
   keyword_tier world_two (str ''love'') 2 = Return [plain_reference row_one, plain_reference row_two]"
proof -
  have 1: "str ''love'' \<in> set (split_ws (toLowerCase world_two (str ''love'')))"
    by (simp add: world_two_simps love_lower love_split)
  have 2: "2 < length (str ''love'')" by (simp add: str_def)
  have 3: "row_two \<in> set (lyrics_index world_two)" by (simp add: world_two_simps)
  have 4: "length (filter (matches_keyword world_two (theme_keywords world_two (str ''love'')))
      (lyrics_index world_two)) \<le> 2"
    by (simp add: love_hits_world_two)
  have 5: "toLowerCase world_two (str ''love'') = toLowerCase world_two (str ''love'')" ..
  from keyword_tier_includes_named_entry
    [OF world_two_simps(1) 1 2 love_not_stop 3 love_in_name(2) 5 4]
  show ?thesis by (simp add: love_hits_world_two)
qed

text \<open>
  The claim as written, with no bound on the number of matching rows, fails where more
  rows match than are asked for: the word \<open>love\<close> of the theme survives the filter and
  occurs verbatim in the names of both rows, and with \<open>matchCount\<close> 1 the tier returns the
  first row only.
\<close>

theorem keyword_tier_limit_counterexample:
  "or_mode world_two = DbAnswers \<and>
   str ''love'' \<in> set (split_ws (str ''love'')) \<and>
   str ''love'' \<in> set (theme_keywords world_two (str ''love'')) \<and>
   row_two \<in> set (lyrics_index world_two) \<and> sublist (str ''love'') (song_name row_two) \<and>
   keyword_tier world_two (str ''love'') 1 = Return [plain_reference row_one] \<and>
   plain_reference row_two \<notin> set [plain_reference row_one]"
proof -
  have "keyword_tier world_two (str ''love'') 1 = Return [plain_reference row_one]"
    using love_hits_world_two
    by (simp add: keyword_tier_def or_ilike_limit_def love_keywords world_two_simps(1))
  moreover have "plain_reference row_two \<notin> set [plain_reference row_one]"
    by (simp add: plain_reference_def row_one_def row_two_def str_def)
  moreover have "or_mode world_two = DbAnswers \<and> row_two \<in> set (lyrics_index world_two)"
    by (simp add: world_two_simps)
  ultimately show ?thesis using love_in_name(2) by (simp add: love_split love_keywords)
qed

lemma match_lyrics_length: "length (match_lyrics w thr n) \<le> n"
  by (simp add: match_lyrics_def)

lemma embedding_tier_Return:
  "embedding_tier w n thr = Return rs \<Longrightarrow> rs \<noteq> [] \<and> length rs \<le> n"
  using match_lyrics_length [of w thr n]
  by (auto simp: embedding_tier_def Let_def split: if_splits db_mode.splits)

lemma keyword_tier_Return:
  "keyword_tier w q n = Return rs \<Longrightarrow> rs \<noteq> [] \<and> length rs \<le> n"
  by (auto simp: keyword_tier_def or_ilike_limit_def Let_def split: if_splits db_mode.splits)

lemma random_tier_Return:
  "random_tier w n = Return rs \<Longrightarrow> rs \<noteq> [] \<and> length rs \<le> n"
  by (auto simp: random_tier_def Let_def split: if_splits db_mode.splits)

lemma findSimilarLyrics_cases:
  "\<exists>rs. findSimilarLyrics w q n thr = Inr rs \<and>
     ((rs \<noteq> [] \<and> length rs \<le> n) \<or> rs = hardcoded_fallback \<or> rs = final_fallback)"
proof (cases "embedding_tier w n thr")
  case (Return rs)
  with embedding_tier_Return [OF Return] show ?thesis
    by (simp add: findSimilarLyrics_def findSimilarLyrics_body_def)
next
  case Throw
  then show ?thesis by (simp add: findSimilarLyrics_def findSimilarLyrics_body_def)
next
  case e: FallThrough
  show ?thesis
  proof (cases "keyword_tier w q n")
    case (Return rs)
    with keyword_tier_Return [OF Return] e show ?thesis
      by (simp add: findSimilarLyrics_def findSimilarLyrics_body_def)
  next
    case Throw
    with e show ?thesis by (simp add: findSimilarLyrics_def findSimilarLyrics_body_def)
  next
    case k: FallThrough
    show ?thesis
    proof (cases "random_tier w n")
      case (Return rs)
      with random_tier_Return [OF Return] e k show ?thesis
        by (simp add: findSimilarLyrics_def findSimilarLyrics_body_def)
    next
      case Throw
      with e k show ?thesis by (simp add: findSimilarLyrics_def findSimilarLyrics_body_def)
    next
      case FallThrough
      with e k show ?thesis by (simp add: findSimilarLyrics_def findSimilarLyrics_body_def)
    qed
  qed
qed

lemma fallback_lengths: "length hardcoded_fallback = 3" "length final_fallback = 1"
  by (simp_all add: hardcoded_fallback_def final_fallback_def)

text \<open>
  C3 (as amended). For every theme, count \<open>N\<close>, threshold and world (whatever the corpus
  holds and whichever calls fail), \<open>findSimilarLyrics\<close> returns and does not throw, and its
  list is not empty. The list has at most \<open>N\<close> entries when a tier that reads the corpus
  supplies it; otherwise it is the hard-coded list of 3 entries, or the list of 1 entry of
  the outer \<open>catch\<close>, whatever \<open>N\<close> is.
\<close>

theorem findSimilarLyrics_never_empty:
  "\<exists>rs. findSimilarLyrics w queryText matchCount matchThreshold = Inr rs \<and> rs \<noteq> [] \<and>
     (length rs \<le> matchCount \<or> rs = hardcoded_fallback \<or> rs = final_fallback) \<and>
     length rs \<le> max matchCount 3"
proof -
  from findSimilarLyrics_cases [of w queryText matchCount matchThreshold]
  obtain rs where eq: "findSimilarLyrics w queryText matchCount matchThreshold = Inr rs"
    and c: "(rs \<noteq> [] \<and> length rs \<le> matchCount) \<or> rs = hardcoded_fallback \<or> rs = final_fallback"
    by blast
  from c fallback_lengths have "rs \<noteq> []" by (metis length_0_conv one_neq_zero zero_neq_numeral)
  moreover from c have "length rs \<le> matchCount \<or> rs = hardcoded_fallback \<or> rs = final_fallback"
    by blast
  moreover from c fallback_lengths have "length rs \<le> max matchCount 3" by auto
  ultimately show ?thesis using eq by blast
qed

theorem findSimilarLyrics_never_empty_witness:
  "findSimilarLyrics world_two (str ''love'') 2 (1 / 100) =
     Inr [plain_reference row_one, plain_reference row_two]"
proof -
  have "findSimilarLyrics world_two (str ''love'') 2 (1 / 100) =
     Inr [plain_reference row_one, plain_reference row_two]"
    using love_hits_world_two
    by (simp add: findSimilarLyrics_def findSimilarLyrics_body_def embedding_tier_def
        keyword_tier_def or_ilike_limit_def love_keywords world_two_simps(1-3))
  with findSimilarLyrics_never_empty [of world_two "str ''love''" 2 "1 / 100"]
  show ?thesis by simp
qed

theorem findSimilarLyrics_count_counterexample:
  "findSimilarLyrics world_empty (str ''love'') 1 (1 / 100) = Inr hardcoded_fallback \<and>
   length hardcoded_fallback = 3"
proof -
  have "findSimilarLyrics world_empty (str ''love'') 1 (1 / 100) = Inr hardcoded_fallback"
    by (simp add: findSimilarLyrics_def findSimilarLyrics_body_def embedding_tier_def
        keyword_tier_def random_tier_def or_ilike_limit_def love_keywords world_two_simps)
  then show ?thesis by (simp add: fallback_lengths)
qed

section \<open>Properties of the cleanup\<close>

lemma ci_prefix_iff: "ci_prefix p s = prefix (map fold_case p) (map fold_case s)"
  by (induction p s rule: ci_prefix.induct) auto

lemma js_includes_sublist: "js_includes s p \<Longrightarrow> sublist p s"
proof (induction s)
  case Nil
  then show ?case by simp
next
  case (Cons c s)
  then show ?case by (auto simp: sublist_Cons_right)
qed

lemma js_includes_iff: "js_includes s p = sublist p s"
  using js_includes_sublist sublist_js_includes by blast

lemma ci_includes_mono: "sublist x y \<Longrightarrow> ci_includes x p \<Longrightarrow> ci_includes y p"
proof -
  assume "sublist x y" and "ci_includes x p"
  then obtain ps ss where "y = ps @ x @ ss"
    and "sublist (map fold_case p) (map fold_case x)"
    by (auto simp: ci_includes_def js_includes_iff sublist_def)
  then have "sublist (map fold_case x) (map fold_case y)" "sublist (map fold_case p) (map fold_case x)"
    by simp_all
  then have "sublist (map fold_case p) (map fold_case y)" by (metis sublist_order.order_trans)
  then show ?thesis by (simp add: ci_includes_def js_includes_iff)
qed

lemma cut_at_prefix: "prefix (cut_at p s) s"
  by (induction s) auto

lemma cut_at_excludes: "p \<noteq> [] \<Longrightarrow> \<not> ci_includes (cut_at p s) p"
proof (induction s)
  case Nil
  then show ?case by (simp add: ci_includes_def)
next
  case (Cons c s)
  show ?case
  proof (cases "ci_prefix p (c # s)")
    case True
    with Cons.prems show ?thesis by (simp add: ci_includes_def)
  next
    case False
    have "\<not> prefix (map fold_case p) (fold_case c # map fold_case (cut_at p s))"
    proof
      assume "prefix (map fold_case p) (fold_case c # map fold_case (cut_at p s))"
      moreover have "prefix (fold_case c # map fold_case (cut_at p s)) (fold_case c # map fold_case s)"
        using cut_at_prefix [of p s] by (simp add: map_mono_prefix)
      ultimately have "prefix (map fold_case p) (map fold_case (c # s))"
        by (metis list.simps(9) prefix_order.order_trans)
      with False show False by (simp add: ci_prefix_iff)
    qed
    with False Cons show ?thesis by (simp add: ci_includes_def)
  qed
qed

lemma foldl_cut_prefix: "prefix (foldl (\<lambda>cleaned phrase. cut_at phrase cleaned) s ps) s"
proof (induction ps arbitrary: s)
  case Nil
  show ?case by simp
next
  case (Cons p ps)
  have "prefix (foldl (\<lambda>cleaned phrase. cut_at phrase cleaned) (cut_at p s) ps) (cut_at p s)"
    by (rule Cons.IH)
  with cut_at_prefix [of p s] show ?case by (metis foldl_Cons prefix_order.order_trans)
qed

lemma foldl_cut_excludes:
  "p \<in> set ps \<Longrightarrow> p \<noteq> [] \<Longrightarrow>
     \<not> ci_includes (foldl (\<lambda>cleaned phrase. cut_at phrase cleaned) s ps) p"
proof (induction ps arbitrary: s)
  case Nil
  then show ?case by simp
next
  case (Cons q ps)
  show ?case
  proof (cases "p = q")
    case True
    have "prefix (foldl (\<lambda>cleaned phrase. cut_at phrase cleaned) (cut_at p s) ps) (cut_at p s)"
      by (rule foldl_cut_prefix)
    then have "sublist (foldl (\<lambda>cleaned phrase. cut_at phrase cleaned) (cut_at p s) ps) (cut_at p s)"
      by (rule prefix_imp_sublist)
    with cut_at_excludes [OF Cons.prems(2), of s] True show ?thesis
      by (auto dest: ci_includes_mono)
  next
    case False
    with Cons.prems have "p \<in> set ps" by simp
    from Cons.IH [OF this Cons.prems(2)] show ?thesis by simp
  qed
qed

lemma trim_sublist: "sublist (trim s) s"
proof -
  have "suffix (dropWhile is_space s) s" by (rule suffix_dropWhile)
  moreover have "prefix (rev (dropWhile is_space (rev (dropWhile is_space s)))) (dropWhile is_space s)"
    by (metis prefix_def rev_append rev_rev_ident takeWhile_dropWhile_id)
  ultimately show ?thesis unfolding trim_def
    by (meson prefix_imp_sublist suffix_imp_sublist sublist_order.order_trans)
qed

lemma forbidden_nonempty: "p \<in> set forbidden_phrases \<Longrightarrow> p \<noteq> []"
  by (auto simp: forbidden_phrases_def str_def)

lemma cleanLyricsResponse_sublist_unwanted:
  "\<exists>c. sublist (cleanLyricsResponse raw) (remove_unwanted c)"
proof -
  define c where "c = (case search_marker (trim raw) of None \<Rightarrow> trim raw | Some i \<Rightarrow> drop i (trim raw))"
  define u where "u = remove_unwanted c"
  have "cleanLyricsResponse raw = trim u \<or> (\<exists>k. cleanLyricsResponse raw = trim (take k u))"
    by (auto simp: cleanLyricsResponse_def Let_def c_def u_def split: option.splits)
  moreover have "sublist (trim u) u" by (rule trim_sublist)
  moreover have "sublist (trim (take k u)) u" for k
    by (meson trim_sublist take_is_prefix prefix_imp_sublist sublist_order.order_trans)
  ultimately show ?thesis unfolding u_def by metis
qed

lemma cleanLyricsResponse_excludes:
  assumes "p \<in> set forbidden_phrases"
  shows "\<not> ci_includes (cleanLyricsResponse raw) p"
proof -
  from cleanLyricsResponse_sublist_unwanted obtain c
    where "sublist (cleanLyricsResponse raw) (remove_unwanted c)" by blast
  moreover have "\<not> ci_includes (remove_unwanted c) p"
    unfolding remove_unwanted_def using assms forbidden_nonempty [OF assms] by (rule foldl_cut_excludes)
  ultimately show ?thesis by (auto dest: ci_includes_mono)
qed


lemma search_marker_Some: "search_marker s = Some i \<Longrightarrow> marker_at (drop i s)"
proof (induction s arbitrary: i)
  case Nil
  then show ?case by simp
next
  case (Cons c cs)
  then show ?case by (cases "marker_at (c # cs)") auto
qed

lemma search_marker_head: "marker_at s \<Longrightarrow> s \<noteq> [] \<Longrightarrow> search_marker s = Some 0"
  by (cases s) auto

lemma search_marker_pos:
  "search_marker s = Some i \<Longrightarrow> \<not> marker_at s \<Longrightarrow> 0 < i"
  by (cases s) auto

lemma ci_prefix_length: "ci_prefix p s \<Longrightarrow> length p \<le> length s"
  by (auto simp: ci_prefix_iff dest: prefix_length_le)

lemma ci_prefix_take: "length p \<le> n \<Longrightarrow> ci_prefix p (take n s) = ci_prefix p s"
proof -
  assume n: "length p \<le> n"
  have "prefix (map fold_case p) (take n (map fold_case s)) = prefix (map fold_case p) (map fold_case s)"
  proof
    assume "prefix (map fold_case p) (take n (map fold_case s))"
    then show "prefix (map fold_case p) (map fold_case s)"
      by (meson take_is_prefix prefix_order.order_trans)
  next
    assume "prefix (map fold_case p) (map fold_case s)"
    then obtain r where "map fold_case s = map fold_case p @ r" by (auto simp: prefix_def)
    with n show "prefix (map fold_case p) (take n (map fold_case s))" by simp
  qed
  then show ?thesis by (simp add: ci_prefix_iff take_map)
qed

lemma section_names_length: "name \<in> set section_names \<Longrightarrow> 5 \<le> length name \<and> length name \<le> 6"
  by (auto simp: section_names_def str_def)

lemma section_names_no_star:
  "name \<in> set section_names \<Longrightarrow> 42 \<notin> set (map fold_case (91 # name))"
  by (auto simp: section_names_def str_def fold_case_def)

lemma marker_at_take: "marker_at (take 7 s) = marker_at s"
  unfolding marker_at_def list_ex_iff
  using ci_prefix_take [of _ 7 s] section_names_length by fastforce

lemma marker_at_length: "marker_at s \<Longrightarrow> 6 \<le> length s"
  unfolding marker_at_def list_ex_iff
  using section_names_length by (fastforce dest: ci_prefix_length)

lemma marker_at_head: "marker_at s \<Longrightarrow> \<exists>cs. s = 91 # cs"
proof -
  assume "marker_at s"
  then obtain name where "ci_prefix (91 # name) s" by (auto simp: marker_at_def list_ex_iff)
  then obtain c cs where s: "s = c # cs" and "fold_case c = fold_case 91"
    by (cases s) (auto simp: ci_prefix_iff)
  then have "c = 91" by (auto simp: fold_case_def split: if_splits)
  with s show ?thesis by simp
qed

lemma fold_case_star: "fold_case c = 42 \<longleftrightarrow> c = 42"
  by (auto simp: fold_case_def)

lemma bold_match_no_star: "c \<noteq> 42 \<Longrightarrow> bold_match (c # cs) = None"
  by (simp add: bold_match_def)

lemma italic_match_no_star: "c \<noteq> 42 \<Longrightarrow> italic_match (c # cs) = None"
  by (simp add: italic_match_def)

lemma ci_prefix_remove_bold:
  "ci_prefix p s \<Longrightarrow> 42 \<notin> set (map fold_case p) \<Longrightarrow> ci_prefix p (remove_bold s)"
proof (induction p arbitrary: s)
  case Nil
  show ?case by (simp add: ci_prefix_iff)
next
  case (Cons a p)
  from Cons.prems(1) obtain c cs where s: "s = c # cs" and c: "fold_case a = fold_case c"
    and rest: "ci_prefix p cs"
    by (cases s) (auto simp: ci_prefix_iff)
  from Cons.prems(2) c have "c \<noteq> 42" by (auto simp: fold_case_star)
  then have "remove_bold s = c # remove_bold cs" using s by (simp add: bold_match_no_star)
  moreover have "ci_prefix p (remove_bold cs)" using rest Cons.prems(2) by (intro Cons.IH) auto
  ultimately show ?case using c by (simp add: ci_prefix_iff)
qed

lemma ci_prefix_remove_italic:
  "ci_prefix p s \<Longrightarrow> 42 \<notin> set (map fold_case p) \<Longrightarrow> ci_prefix p (remove_italic s)"
proof (induction p arbitrary: s)
  case Nil
  show ?case by (simp add: ci_prefix_iff)
next
  case (Cons a p)
  from Cons.prems(1) obtain c cs where s: "s = c # cs" and c: "fold_case a = fold_case c"
    and rest: "ci_prefix p cs"
    by (cases s) (auto simp: ci_prefix_iff)
  from Cons.prems(2) c have "c \<noteq> 42" by (auto simp: fold_case_star)
  then have "remove_italic s = c # remove_italic cs" using s by (simp add: italic_match_no_star)
  moreover have "ci_prefix p (remove_italic cs)" using rest Cons.prems(2) by (intro Cons.IH) auto
  ultimately show ?case using c by (simp add: ci_prefix_iff)
qed

lemma marker_at_remove_stars: "marker_at s \<Longrightarrow> marker_at (remove_italic (remove_bold s))"
  unfolding marker_at_def list_ex_iff
  using section_names_no_star ci_prefix_remove_bold ci_prefix_remove_italic by blast

lemma trim_prefix: "s = [] \<or> \<not> is_space (hd s) \<Longrightarrow> prefix (trim s) s"
proof -
  assume "s = [] \<or> \<not> is_space (hd s)"
  then have "dropWhile is_space s = s" by (cases s) auto
  moreover have "prefix (rev (dropWhile is_space (rev s))) s"
    by (metis prefix_def rev_append rev_rev_ident takeWhile_dropWhile_id)
  ultimately show ?thesis by (simp add: trim_def)
qed

lemma prefix_of_marker:
  assumes "prefix out u" and "marker_at u"
  shows "search_marker out = None \<or> search_marker out = Some 0"
proof (cases "marker_at out")
  case True
  then have "out \<noteq> []" by (auto dest: marker_at_length)
  with True show ?thesis by (simp add: search_marker_head)
next
  case False
  have "search_marker out = None"
  proof (rule ccontr)
    assume "search_marker out \<noteq> None"
    then obtain j where j: "search_marker out = Some j" by auto
    from search_marker_pos [OF j False] have "0 < j" .
    moreover have "6 \<le> length (drop j out)"
      using search_marker_Some [OF j] by (rule marker_at_length)
    ultimately have "7 \<le> length out" by simp
    with assms(1) have "take 7 out = take 7 u" by (auto simp: prefix_def)
    with assms(2) have "marker_at out" by (metis marker_at_take)
    with False show False ..
  qed
  then show ?thesis ..
qed

lemma cleanLyricsResponse_prefix:
  assumes "search_marker (trim raw) = Some i"
  shows "prefix (cleanLyricsResponse raw) (remove_italic (remove_bold (drop i (trim raw))))
     \<and> marker_at (remove_italic (remove_bold (drop i (trim raw))))"
proof -
  define u where "u = remove_italic (remove_bold (drop i (trim raw)))"
  define w where "w = remove_unwanted (drop i (trim raw))"
  have m: "marker_at u" unfolding u_def
    using assms by (intro marker_at_remove_stars search_marker_Some)
  then obtain cs where u: "u = 91 # cs" by (auto dest: marker_at_head)
  have w: "prefix w u" unfolding w_def u_def remove_unwanted_def by (rule foldl_cut_prefix)
  have start: "x = [] \<or> \<not> is_space (hd x)" if "prefix x u" for x
    using that u by (cases x) (auto simp: is_space_def)
  have "cleanLyricsResponse raw = trim w \<or> (\<exists>k. cleanLyricsResponse raw = trim (take k w))"
    using assms by (auto simp: cleanLyricsResponse_def Let_def w_def split: option.splits)
  moreover have "prefix (trim w) u"
    using trim_prefix [OF start [OF w]] w by (rule prefix_order.order_trans)
  moreover have "prefix (trim (take k w)) u" for k
  proof -
    have "prefix (take k w) u" using take_is_prefix w by (rule prefix_order.order_trans)
    from trim_prefix [OF start [OF this]] this show ?thesis by (rule prefix_order.order_trans)
  qed
  ultimately have "prefix (cleanLyricsResponse raw) u" by metis
  with m show ?thesis unfolding u_def by simp
qed

lemma search_marker_iff: "search_marker s \<noteq> None \<longleftrightarrow> (\<exists>i. marker_at (drop i s))"
proof (induction s)
  case Nil
  show ?case by (auto dest: marker_at_length)
next
  case (Cons c cs)
  show ?case
  proof (cases "marker_at (c # cs)")
    case True
    then have "marker_at (drop 0 (c # cs))" by simp
    with True show ?thesis by (metis option.distinct(1) search_marker.simps(2))
  next
    case False
    have "(\<exists>i. marker_at (drop i (c # cs))) \<longleftrightarrow> (\<exists>j. marker_at (drop j cs))"
    proof
      assume "\<exists>i. marker_at (drop i (c # cs))"
      then obtain i where i: "marker_at (drop i (c # cs))" ..
      with False obtain j where "i = Suc j" by (cases i) auto
      with i show "\<exists>j. marker_at (drop j cs)" by auto
    next
      assume "\<exists>j. marker_at (drop j cs)"
      then obtain j where "marker_at (drop (Suc j) (c # cs))" by auto
      then show "\<exists>i. marker_at (drop i (c # cs))" ..
    qed
    with False Cons show ?thesis by simp
  qed
qed

lemma marker_head_not_space: "marker_at (c # cs) \<Longrightarrow> \<not> is_space c"
  by (auto dest!: marker_at_head simp: is_space_def)

lemma marker_dropWhile:
  "\<exists>i. marker_at (drop i s) \<Longrightarrow> \<exists>i. marker_at (drop i (dropWhile is_space s))"
proof (induction s)
  case Nil
  then show ?case by simp
next
  case (Cons c cs)
  show ?case
  proof (cases "is_space c")
    case False
    with Cons.prems show ?thesis by simp
  next
    case True
    from Cons.prems obtain i where i: "marker_at (drop i (c # cs))" ..
    have "i \<noteq> 0"
    proof
      assume "i = 0"
      with i have "marker_at (c # cs)" by simp
      with True show False by (auto dest: marker_head_not_space)
    qed
    then obtain j where "i = Suc j" by (cases i) auto
    with i have "\<exists>j. marker_at (drop j cs)" by auto
    from Cons.IH [OF this] True show ?thesis by simp
  qed
qed

lemma marker_unit_range:
  "name \<in> set section_names \<Longrightarrow> a \<in> set (91 # name) \<Longrightarrow>
     65 \<le> fold_case a \<and> fold_case a \<le> 91"
  by (auto simp: section_names_def str_def fold_case_def)

lemma space_unit_range: "is_space c \<Longrightarrow> fold_case c < 65 \<or> 91 < fold_case c"
  by (auto simp: is_space_def fold_case_def)

lemma fold_case_not_space:
  "name \<in> set section_names \<Longrightarrow> a \<in> set (91 # name) \<Longrightarrow> is_space c \<Longrightarrow>
     fold_case a \<noteq> fold_case c"
  using marker_unit_range [of name a] space_unit_range [of c] by linarith

lemma ci_prefix_spaces:
  "ci_prefix p (x @ ws) \<Longrightarrow> list_all is_space ws \<Longrightarrow>
     (\<And>a c. a \<in> set p \<Longrightarrow> is_space c \<Longrightarrow> fold_case a \<noteq> fold_case c) \<Longrightarrow> ci_prefix p x"
proof (induction p arbitrary: x)
  case Nil
  show ?case by simp
next
  case (Cons a p)
  show ?case
  proof (cases x)
    case Nil
    with Cons.prems(1) obtain c rest where ws: "ws = c # rest" and "fold_case a = fold_case c"
      by (cases ws) auto
    moreover from ws Cons.prems(2) have "is_space c" by simp
    ultimately show ?thesis using Cons.prems(3) [of a c] by simp
  next
    case (Cons c x')
    with Cons.prems(1) have "fold_case a = fold_case c" and "ci_prefix p (x' @ ws)" by simp_all
    moreover have "ci_prefix p x'"
      using \<open>ci_prefix p (x' @ ws)\<close> Cons.prems(2)
    proof (rule Cons.IH)
      fix a' c' assume "a' \<in> set p" "is_space c'"
      then show "fold_case a' \<noteq> fold_case c'" using Cons.prems(3) [of a' c'] by simp
    qed
    ultimately show ?thesis using Cons by simp
  qed
qed

lemma marker_at_spaces: "marker_at (x @ ws) \<Longrightarrow> list_all is_space ws \<Longrightarrow> marker_at x"
proof -
  assume m: "marker_at (x @ ws)" and ws: "list_all is_space ws"
  then obtain name where n: "name \<in> set section_names" and p: "ci_prefix (91 # name) (x @ ws)"
    by (auto simp: marker_at_def list_ex_iff)
  have "ci_prefix (91 # name) x"
    using p ws
  proof (rule ci_prefix_spaces)
    fix a c assume "a \<in> set (91 # name)" "is_space c"
    with n show "fold_case a \<noteq> fold_case c" by (rule fold_case_not_space)
  qed
  with n show ?thesis by (auto simp: marker_at_def list_ex_iff)
qed

lemma marker_drop_trailing:
  assumes "\<exists>i. marker_at (drop i s)"
  shows "\<exists>i. marker_at (drop i (rev (dropWhile is_space (rev s))))"
proof -
  let ?t = "rev (dropWhile is_space (rev s))" and ?ws = "rev (takeWhile is_space (rev s))"
  have s: "s = ?t @ ?ws" by (metis rev_append rev_rev_ident takeWhile_dropWhile_id)
  have ws: "list_all is_space ?ws"
    by (simp add: list_all_iff) (metis set_takeWhileD)
  from assms obtain i where "marker_at (drop i s)" ..
  with s have "marker_at (drop i ?t @ drop (i - length ?t) ?ws)" by (metis drop_append)
  moreover have "list_all is_space (drop (i - length ?t) ?ws)"
    using ws by (auto simp: list_all_iff dest: in_set_dropD)
  ultimately have "marker_at (drop i ?t)" by (rule marker_at_spaces)
  then show ?thesis ..
qed

lemma search_marker_trim: "search_marker s \<noteq> None \<Longrightarrow> search_marker (trim s) \<noteq> None"
  unfolding search_marker_iff trim_def
  by (intro marker_drop_trailing marker_dropWhile)

text \<open>
  C5 (as amended). For every raw text, the text that \<open>cleanLyricsResponse\<close> returns contains
  none of the ten forbidden phrases, in any letter case. For every raw text that contains
  a recognized section marker, the returned text has nothing before its first recognized
  section marker: it holds no marker, or one at index 0.
\<close>

theorem cleanLyricsResponse_no_phrase_no_preamble:
  "list_all (\<lambda>phrase. \<not> ci_includes (cleanLyricsResponse raw) phrase) forbidden_phrases \<and>
   (search_marker raw \<noteq> None \<longrightarrow>
      search_marker (cleanLyricsResponse raw) = None \<or>
      search_marker (cleanLyricsResponse raw) = Some 0)"
proof
  show "list_all (\<lambda>phrase. \<not> ci_includes (cleanLyricsResponse raw) phrase) forbidden_phrases"
    unfolding list_all_iff using cleanLyricsResponse_excludes by blast
next
  show "search_marker raw \<noteq> None \<longrightarrow>
      search_marker (cleanLyricsResponse raw) = None \<or>
      search_marker (cleanLyricsResponse raw) = Some 0"
  proof
    assume "search_marker raw \<noteq> None"
    then have "search_marker (trim raw) \<noteq> None" by (rule search_marker_trim)
    then obtain i where "search_marker (trim raw) = Some i" by auto
    from cleanLyricsResponse_prefix [OF this]
    have "prefix (cleanLyricsResponse raw) (remove_italic (remove_bold (drop i (trim raw))))"
      and "marker_at (remove_italic (remove_bold (drop i (trim raw))))" by simp_all
    then show "search_marker (cleanLyricsResponse raw) = None \<or>
      search_marker (cleanLyricsResponse raw) = Some 0"
      by (rule prefix_of_marker)
  qed
qed

lemmas eval_clean = str_def is_space_def fold_case_def marker_at_def section_names_def
  trim_def bold_match_def italic_match_def remove_unwanted_def forbidden_phrases_def
  section_match_length_def last_section_names_def is_letter_def lastIndexOf_def

lemma hidden_1: "trim raw_hidden_marker = raw_hidden_marker"
  by (simp add: raw_hidden_marker_def eval_clean)

lemma hidden_2: "search_marker raw_hidden_marker = None"
  by (simp add: raw_hidden_marker_def eval_clean)

lemma hidden_3: "remove_unwanted raw_hidden_marker = str ''hello [Verse] x''"
  by (simp add: raw_hidden_marker_def eval_clean)

lemma hidden_4: "last_section_group (str ''hello [Verse] x'') = Some (str ''[Verse] x'')"
  by (simp add: eval_clean)

lemma hidden_5:
  "take (nat (lastIndexOf (str ''hello [Verse] x'') (str ''[Verse] x'') + int (length (str ''[Verse] x''))))
     (str ''hello [Verse] x'') = str ''hello [Verse] x''"
  by (simp add: eval_clean)

lemma hidden_6: "trim (str ''hello [Verse] x'') = str ''hello [Verse] x''"
  by (simp add: eval_clean)

lemma hidden_7: "search_marker (str ''hello [Verse] x'') = Some 6"
  by (simp add: eval_clean)

lemma hidden_clean: "cleanLyricsResponse raw_hidden_marker = str ''hello [Verse] x''"
  by (simp add: cleanLyricsResponse_def hidden_1 hidden_2 hidden_3 hidden_4 hidden_5 hidden_6)

theorem cleanLyricsResponse_preamble_counterexample:
  "cleanLyricsResponse raw_hidden_marker = str ''hello [Verse] x'' \<and>
   search_marker (cleanLyricsResponse raw_hidden_marker) = Some 6"
  by (simp add: hidden_clean hidden_7)


lemma song_1: "trim raw_song = raw_song"
  by (simp add: raw_song_def eval_clean)

lemma song_2: "search_marker raw_song = Some 8"
  by (simp add: raw_song_def eval_clean)

lemma song_3: "remove_unwanted (drop 8 raw_song) = song_untrimmed"
  by (simp add: raw_song_def song_untrimmed_def eval_clean)

lemma song_4: "last_section_group song_untrimmed = Some song_untrimmed"
  by (simp add: song_untrimmed_def eval_clean)

lemma song_5:
  "take (nat (lastIndexOf song_untrimmed song_untrimmed + int (length song_untrimmed)))
     song_untrimmed = song_untrimmed"
  by (simp add: song_untrimmed_def eval_clean)

lemma song_6: "trim song_untrimmed = cleaned_song"
  by (simp add: cleaned_song_def song_untrimmed_def eval_clean)

lemma song_7: "search_marker cleaned_song = Some 0"
  by (simp add: cleaned_song_def eval_clean)

lemma song_clean: "cleanLyricsResponse raw_song = cleaned_song"
  by (simp add: cleanLyricsResponse_def song_1 song_2 song_3 song_4 song_5 song_6)

theorem cleanLyricsResponse_no_phrase_no_preamble_witness:
  "search_marker raw_song = Some 8 \<and> cleanLyricsResponse raw_song = cleaned_song \<and>
   search_marker (cleanLyricsResponse raw_song) = Some 0 \<and>
   list_all (\<lambda>phrase. \<not> ci_includes cleaned_song phrase) forbidden_phrases"
  using cleanLyricsResponse_no_phrase_no_preamble [of raw_song]
  by (simp add: song_1 song_2 song_clean song_7)

section \<open>Properties of drafting and submission\<close>

lemma fallback_lyrics_nonempty: "fallback_lyrics \<noteq> []"
  by (simp add: fallback_lyrics_def str_def)

lemma optimizeLyricsPrompt_throws:
  "\<forall>request. isl (gen_api e request (gen_calls s)) \<Longrightarrow>
     \<exists>err. optimizeLyricsPrompt e q styleTags refs s = (Inl err, s\<lparr>gen_calls := Suc (gen_calls s)\<rparr>)"
proof -
  assume a: "\<forall>request. isl (gen_api e request (gen_calls s))"
  let ?r = "\<lparr>q_userPrompt = q, q_styleTags = styleTags, q_references = map (take 200) refs\<rparr>"
  from a have "isl (gen_api e ?r (gen_calls s))" by blast
  then obtain err where "gen_api e ?r (gen_calls s) = Inl err"
    by (cases "gen_api e ?r (gen_calls s)") auto
  then show ?thesis by (simp add: optimizeLyricsPrompt_def)
qed

lemma rag_lyrics_throws:
  assumes "\<forall>request. isl (gen_api e request (gen_calls s))"
  shows "\<exists>refs. rag_lyrics e theme styles s = ((fallback_lyrics, refs), s\<lparr>gen_calls := Suc (gen_calls s)\<rparr>)"
proof -
  from findSimilarLyrics_cases [of "corpus e" theme 3 "1 / 100"]
  obtain rs where rs: "findSimilarLyrics (corpus e) theme 3 (1 / 100) = Inr rs" by blast
  from optimizeLyricsPrompt_throws [OF assms]
  obtain e1 where 1: "optimizeLyricsPrompt e theme styles (map lyrics_text rs) s =
      (Inl e1, s\<lparr>gen_calls := Suc (gen_calls s)\<rparr>)" by blast
  from optimizeLyricsPrompt_throws [OF assms]
  obtain e2 where 2: "optimizeLyricsPrompt e theme styles [] s =
      (Inl e2, s\<lparr>gen_calls := Suc (gen_calls s)\<rparr>)" by blast
  show ?thesis using rs 1 2 by (simp add: rag_lyrics_def)
qed

lemma generateCompleteSong_submits:
  assumes "final_lyrics \<noteq> []"
    and "(case p_customLyrics params of
              None \<Rightarrow> rag_lyrics e (p_theme params) (p_styles params) s
            | Some custom \<Rightarrow>
                if custom = [] then rag_lyrics e (p_theme params) (p_styles params) s
                else ((custom, []), s)) = ((final_lyrics, refs), s1)"
  shows "\<exists>tid. generateCompleteSong e params s =
     (Inr \<lparr>r_lyrics = final_lyrics, r_title = p_title params, r_task_id = Some tid,
           r_reference_songs = refs, r_error = None\<rparr>, s1\<lparr>create_calls := Suc (create_calls s1)\<rparr>)
     \<and> (isl (create_api e (create_music_request params final_lyrics) (create_calls s1))
          \<longrightarrow> tid = mock_task_id e)"
  using assms by (auto simp: generateCompleteSong_def split: sum.splits option.splits)

text \<open>
  C8. With no custom lyrics (missing or empty) and a text-generation call that throws,
  \<open>generateCompleteSong\<close> calls the text-generation service exactly once, takes the fixed
  fallback lyric, which is not empty, and goes on to submit the song: it returns lyrics,
  a task id and no error.
\<close>

theorem generateCompleteSong_fallback_lyrics:
  assumes "p_customLyrics params = None \<or> p_customLyrics params = Some []"
    and "\<forall>request. isl (gen_api e request (gen_calls s))"
  shows "\<exists>result s'. generateCompleteSong e params s = (Inr result, s') \<and>
     r_lyrics result = fallback_lyrics \<and> fallback_lyrics \<noteq> [] \<and>
     gen_calls s' = Suc (gen_calls s) \<and>
     r_error result = None \<and> r_task_id result \<noteq> None \<and>
     create_calls s' = Suc (create_calls s)"
proof -
  from rag_lyrics_throws [OF assms(2)]
  obtain refs where r: "rag_lyrics e (p_theme params) (p_styles params) s =
      ((fallback_lyrics, refs), s\<lparr>gen_calls := Suc (gen_calls s)\<rparr>)" by blast
  have "(case p_customLyrics params of
              None \<Rightarrow> rag_lyrics e (p_theme params) (p_styles params) s
            | Some custom \<Rightarrow>
                if custom = [] then rag_lyrics e (p_theme params) (p_styles params) s
                else ((custom, []), s)) = ((fallback_lyrics, refs), s\<lparr>gen_calls := Suc (gen_calls s)\<rparr>)"
    using assms(1) r by auto
  from generateCompleteSong_submits [OF fallback_lyrics_nonempty this]
  show ?thesis using fallback_lyrics_nonempty by auto
qed

theorem generateCompleteSong_fallback_lyrics_witness:
  "\<exists>result s'. generateCompleteSong env_down params_plain io0 = (Inr result, s') \<and>
     r_lyrics result = fallback_lyrics \<and> gen_calls s' = 1 \<and> r_task_id result \<noteq> None"
proof -
  have 1: "p_customLyrics params_plain = None \<or> p_customLyrics params_plain = Some []"
    by (simp add: params_plain_def)
  have 2: "\<forall>request. isl (gen_api env_down request (gen_calls io0))"
    by (simp add: env_down_def)
  from generateCompleteSong_fallback_lyrics [OF 1 2]
  show ?thesis by (auto simp: io0_def)
qed

lemma rag_lyrics_create_calls:
  "rag_lyrics e theme styles s = (x, s1) \<Longrightarrow> create_calls s1 = create_calls s"
  by (auto simp: rag_lyrics_def optimizeLyricsPrompt_def split: sum.splits if_splits prod.splits)

lemma draft_create_calls:
  assumes "(case p_customLyrics params of
              None \<Rightarrow> rag_lyrics e (p_theme params) (p_styles params) s
            | Some custom \<Rightarrow>
                if custom = [] then rag_lyrics e (p_theme params) (p_styles params) s
                else ((custom, []), s)) = (x, s1)"
  shows "create_calls s1 = create_calls s"
proof (cases "p_customLyrics params")
  case None
  with assms show ?thesis by (simp add: rag_lyrics_create_calls)
next
  case (Some custom)
  with assms show ?thesis by (cases "custom = []") (simp_all add: rag_lyrics_create_calls)
qed

lemma generateCompleteSong_mock:
  assumes "\<forall>request. isl (create_api e request (create_calls s))"
    and "generateCompleteSong e params s = (Inr result, s')"
    and "create_calls s' \<noteq> create_calls s"
  shows "r_task_id result = Some (mock_task_id e) \<and> r_error result = None \<and>
         r_lyrics result \<noteq> []"
proof -
  define X where "X = (case p_customLyrics params of
              None \<Rightarrow> rag_lyrics e (p_theme params) (p_styles params) s
            | Some custom \<Rightarrow>
                if custom = [] then rag_lyrics e (p_theme params) (p_styles params) s
                else ((custom, []), s))"
  obtain final_lyrics refs s1 where "X = ((final_lyrics, refs), s1)"
    by (metis prod.exhaust)
  then have c: "(case p_customLyrics params of
              None \<Rightarrow> rag_lyrics e (p_theme params) (p_styles params) s
            | Some custom \<Rightarrow>
                if custom = [] then rag_lyrics e (p_theme params) (p_styles params) s
                else ((custom, []), s)) = ((final_lyrics, refs), s1)"
    by (simp add: X_def)
  then have calls: "create_calls s1 = create_calls s" by (rule draft_create_calls)
  show ?thesis
  proof (cases "final_lyrics = []")
    case True
    have "generateCompleteSong e params s =
       (Inr \<lparr>r_lyrics = [], r_title = p_title params, r_task_id = None,
                r_reference_songs = refs,
                r_error = Some (str ''Failed to generate lyrics'')\<rparr>, s1)"
      unfolding generateCompleteSong_def c using True by simp
    with assms(2) have "s' = s1" by simp
    with calls assms(3) show ?thesis by simp
  next
    case False
    from assms(1) calls
    have i: "isl (create_api e (create_music_request params final_lyrics) (create_calls s1))"
      by simp
    from generateCompleteSong_submits [OF False c] i
    obtain tid where "generateCompleteSong e params s =
     (Inr \<lparr>r_lyrics = final_lyrics, r_title = p_title params, r_task_id = Some tid,
           r_reference_songs = refs, r_error = None\<rparr>, s1\<lparr>create_calls := Suc (create_calls s1)\<rparr>)"
      and "tid = mock_task_id e" by blast
    with assms(2) have "result = \<lparr>r_lyrics = final_lyrics, r_title = p_title params,
        r_task_id = Some (mock_task_id e), r_reference_songs = refs, r_error = None\<rparr>" by simp
    with False show ?thesis by simp
  qed
qed

lemma mock_task_id_prefix: "prefix (str ''mock_'') (mock_task_id e)"
  by (simp add: mock_task_id_def)

lemma mock_response_clip:
  "\<exists>c. data (mock_response e tid) = Some [c] \<and> c_state c = CSucceeded \<and>
     c_audio_url c = str ''https://cdn1.suno.ai/mock-audio-url.mp3'' \<and>
     c_video_url c = str ''https://cdn1.suno.ai/mock-video-url.mp4'' \<and>
     c_image_url c = str ''https://cdn1.suno.ai/mock-image-url.jpg'' \<and>
     c_duration c = 180"
  by (simp add: mock_response_def)

text \<open>
  C4. When the audio-creation call is made and throws, \<open>generateCompleteSong\<close> returns no
  error and the task id \<open>mock_<Date.now()>_<9 characters of Math.random() in base 36>\<close>.
  Polling any task id that starts with \<open>mock_\<close> makes no call of the status endpoint, sleeps
  2000 ms once, and returns the response of code 200 whose one clip has state \<open>succeeded\<close>,
  the fixed placeholder audio, video and image URLs and duration 180.
\<close>

theorem creation_failure_gives_mock_task:
  assumes "\<forall>request. isl (create_api e request (create_calls s))"
    and "generateCompleteSong e params s = (Inr result, s')"
    and "create_calls s' \<noteq> create_calls s"
    and "prefix (str ''mock_'') tid"
  shows "r_error result = None \<and>
     r_task_id result =
       Some (str ''mock_'' @ show_nat (date_now e) @ str ''_'' @ take 9 (drop 2 (random36 e))) \<and>
     prefix (str ''mock_'') (the (r_task_id result)) \<and>
     pollTaskCompletion e (Some tid) maxAttempts intervalMs s0 = (Inr (mock_response e tid), sleep 2000 s0) \<and>
     status_calls (sleep 2000 s0) = status_calls s0 \<and> slept (sleep 2000 s0) = slept s0 @ [2000] \<and>
     code (mock_response e tid) = 200 \<and>
     (\<exists>c. data (mock_response e tid) = Some [c] \<and> c_state c = CSucceeded \<and>
        c_audio_url c = str ''https://cdn1.suno.ai/mock-audio-url.mp3'' \<and>
        c_video_url c = str ''https://cdn1.suno.ai/mock-video-url.mp4'' \<and>
        c_image_url c = str ''https://cdn1.suno.ai/mock-image-url.jpg'' \<and>
        c_duration c = 180)"
proof -
  from generateCompleteSong_mock [OF assms(1-3)]
  have "r_task_id result = Some (mock_task_id e)" "r_error result = None" by simp_all
  moreover have "pollTaskCompletion e (Some tid) maxAttempts intervalMs s0 =
      (Inr (mock_response e tid), sleep 2000 s0)"
    using assms(4) by (rule pollTaskCompletion_mock)
  moreover have "code (mock_response e tid) = 200" by (simp add: mock_response_def)
  moreover note mock_response_clip [of e tid] mock_task_id_prefix [of e]
  ultimately show ?thesis by (simp add: sleep_def) (simp add: mock_task_id_def)
qed

lemma env_down_song:
  "\<exists>result s'. generateCompleteSong env_down params_plain io0 = (Inr result, s') \<and>
      create_calls s' = Suc 0"
proof -
  have 1: "p_customLyrics params_plain = None \<or> p_customLyrics params_plain = Some []"
    by (simp add: params_plain_def)
  have 2: "\<forall>request. isl (gen_api env_down request (gen_calls io0))"
    by (simp add: env_down_def)
  from rag_lyrics_throws [OF 2]
  obtain refs where "rag_lyrics env_down (p_theme params_plain) (p_styles params_plain) io0 =
      ((fallback_lyrics, refs), io0\<lparr>gen_calls := Suc (gen_calls io0)\<rparr>)" by blast
  then have "(case p_customLyrics params_plain of
              None \<Rightarrow> rag_lyrics env_down (p_theme params_plain) (p_styles params_plain) io0
            | Some custom \<Rightarrow>
                if custom = [] then rag_lyrics env_down (p_theme params_plain) (p_styles params_plain) io0
                else ((custom, []), io0)) =
      ((fallback_lyrics, refs), io0\<lparr>gen_calls := Suc (gen_calls io0)\<rparr>)"
    by (simp add: params_plain_def)
  from generateCompleteSong_submits [OF fallback_lyrics_nonempty this]
  show ?thesis by (auto simp: io0_def)
qed

theorem creation_failure_gives_mock_task_witness:
  "\<exists>result s'. generateCompleteSong env_down params_plain io0 = (Inr result, s') \<and>
     r_task_id result = Some (str ''mock_1700000000000_4fzyo82mv'') \<and>
     pollTaskCompletion env_down (Some (str ''mock_1700000000000_4fzyo82mv'')) 15 30000 s' =
       (Inr (mock_response env_down (str ''mock_1700000000000_4fzyo82mv'')), sleep 2000 s')"
proof -
  from env_down_song obtain result s'
    where g: "generateCompleteSong env_down params_plain io0 = (Inr result, s')"
      and c: "create_calls s' = Suc 0" by blast
  have 1: "\<forall>request. isl (create_api env_down request (create_calls io0))"
    by (simp add: env_down_def)
  have 2: "create_calls s' \<noteq> create_calls io0" using c by (simp add: io0_def)
  have 3: "prefix (str ''mock_'') (str ''mock_1700000000000_4fzyo82mv'')" by (simp add: str_def)
  have 4: "str ''mock_'' @ show_nat (date_now env_down) @ str ''_'' @ take 9 (drop 2 (random36 env_down))
      = str ''mock_1700000000000_4fzyo82mv''"
    by (simp add: env_down_def show_nat.simps str_def)
  from creation_failure_gives_mock_task [OF 1 g 2 3, of 15 30000 s'] 4 g
  show ?thesis by simp
qed

section \<open>Properties of the status transitions\<close>


lemma u_status_simps [simp]:
  "u_status (set_status st msg) = Some st"
  "u_status (completed_update e c) = Some SCompleted"
  "u_status (task_update params result) = None"
  "u_status (no_update\<lparr>u_status := Some st\<rparr>) = Some st"
  by (simp_all add: set_status_def completed_update_def task_update_def no_update_def)




lemma task_id_updateSong [simp]:
  "task_id (row (updateSong (set_status st msg) d)) = task_id (row d)"
  "task_id (row (updateSong (completed_update e c) d)) = task_id (row d)"
  by (simp_all add: updateSong_def apply_update_def set_status_def completed_update_def
      no_update_def set_field_def)








section \<open>Properties of the ingestion\<close>

lemma map_filter_member:
  "y \<in> set (List.map_filter f xs) \<Longrightarrow> \<exists>x. x \<in> set xs \<and> f x = Some y"
  by (auto simp: List.map_filter_def)

lemma process_song_Some:
  assumes "process_song w song_row = Some entry"
  shows "songTitle song_row \<noteq> [] \<and> song_name entry = songTitle song_row \<and>
     lyrics_text entry = clean_hindi_lyrics w (hindiLyrics song_row) \<and>
     10 \<le> length (lyrics_text entry)"
  using assms by (auto simp: process_song_def Let_def split: if_splits)

lemma clean_hindi_lyrics_cases:
  "(list_literal raw \<and>
      (\<exists>lyricsArray. json_parse w (replace_quotes raw) = Some lyricsArray \<and>
         clean_hindi_lyrics w raw = trim (join [10] (map join_string (filter keep_line lyricsArray))))) \<or>
   ((\<not> list_literal raw \<or> json_parse w (replace_quotes raw) = None) \<and>
      clean_hindi_lyrics w raw = raw)"
  by (cases "json_parse w (replace_quotes raw)") (auto simp: clean_hindi_lyrics_def)

text \<open>
  C9 (as amended). Every row that the ingestion pass inserts has a title and a lyrics text
  of at least 10 code units. Its text comes from a CSV row in one of two ways: the row's
  text is in list format (it starts with \<open>['\<close> and ends with \<open>']\<close>) and parses, and the
  stored text is the trimmed join, by newlines, of the elements other than the string
  \<open>Lyrics\<close> and the all-digit ones; or the row's text is not in list format, or does not
  parse, and is stored as it is.
\<close>

theorem processLyricsCSV_stored_entries:
  assumes "entry \<in> set (processLyricsCSV w lyricsData)"
  shows "10 \<le> length (lyrics_text entry) \<and>
     (\<exists>song_row. song_row \<in> set lyricsData \<and> songTitle song_row \<noteq> [] \<and>
        song_name entry = songTitle song_row \<and>
        ((list_literal (hindiLyrics song_row) \<and>
          (\<exists>lyricsArray.
             json_parse w (replace_quotes (hindiLyrics song_row)) = Some lyricsArray \<and>
             lyrics_text entry =
               trim (join [10] (map join_string (filter keep_line lyricsArray))))) \<or>
         ((\<not> list_literal (hindiLyrics song_row) \<or>
           json_parse w (replace_quotes (hindiLyrics song_row)) = None) \<and>
          lyrics_text entry = hindiLyrics song_row)))"
proof -
  from assms obtain song_row where r: "song_row \<in> set lyricsData"
    and p: "process_song w song_row = Some entry"
    unfolding processLyricsCSV_def by (auto dest: map_filter_member)
  note ps = process_song_Some [OF p]
  from ps have t: "songTitle song_row \<noteq> []" "song_name entry = songTitle song_row"
    by blast+
  from ps have c: "lyrics_text entry = clean_hindi_lyrics w (hindiLyrics song_row)" by blast
  from ps have l: "10 \<le> length (lyrics_text entry)" by blast
  from clean_hindi_lyrics_cases [of "hindiLyrics song_row" w] c
  have "(list_literal (hindiLyrics song_row) \<and>
          (\<exists>lyricsArray.
             json_parse w (replace_quotes (hindiLyrics song_row)) = Some lyricsArray \<and>
             lyrics_text entry =
               trim (join [10] (map join_string (filter keep_line lyricsArray))))) \<or>
         ((\<not> list_literal (hindiLyrics song_row) \<or>
           json_parse w (replace_quotes (hindiLyrics song_row)) = None) \<and>
          lyrics_text entry = hindiLyrics song_row)" by simp
  with r t l show ?thesis by blast
qed

lemmas eval_ingest = str_def list_literal_def replace_quotes_def parse_string_array_def
  is_json_space_def keep_line_def all_digits_def to_string_def join_string_def trim_def
  is_space_def suffix_to_prefix

lemma listed_parse:
  "parse_string_array (replace_quotes lyrics_listed) =
     Some [JStr (str ''Lyrics''), JStr (str ''1''), JStr (str ''Dil se re''),
           JStr (str ''Dil to pagal hai'')]"
  by (simp add: lyrics_listed_def eval_ingest)

lemma listed_clean:
  "clean_hindi_lyrics ingestion_ok lyrics_listed = str ''Dil se re'' @ [10] @ str ''Dil to pagal hai''"
proof -
  have "list_literal lyrics_listed" by (simp add: lyrics_listed_def eval_ingest)
  moreover have "trim (join [10] (map join_string (filter keep_line
      [JStr (str ''Lyrics''), JStr (str ''1''), JStr (str ''Dil se re''),
       JStr (str ''Dil to pagal hai'')]))) = str ''Dil se re'' @ [10] @ str ''Dil to pagal hai''"
    by (simp add: eval_ingest)
  ultimately show ?thesis
    by (simp add: clean_hindi_lyrics_def ingestion_ok_def listed_parse)
qed

lemma listed_processed:
  "processLyricsCSV ingestion_ok [row_listed] =
     [\<lparr>song_name = str ''Dil Se'', lyrics_text = str ''Dil se re'' @ [10] @ str ''Dil to pagal hai''\<rparr>]"
proof -
  have "process_song ingestion_ok row_listed =
     Some \<lparr>song_name = str ''Dil Se'', lyrics_text = str ''Dil se re'' @ [10] @ str ''Dil to pagal hai''\<rparr>"
    by (simp add: process_song_def row_listed_def listed_clean Let_def)
       (simp add: ingestion_ok_def lyrics_listed_def str_def)
  then show ?thesis by (simp add: processLyricsCSV_def List.map_filter_def)
qed

theorem processLyricsCSV_stored_entries_witness:
  "processLyricsCSV ingestion_ok [row_listed] =
     [\<lparr>song_name = str ''Dil Se'', lyrics_text = str ''Dil se re'' @ [10] @ str ''Dil to pagal hai''\<rparr>] \<and>
   10 \<le> length (str ''Dil se re'' @ [10] @ str ''Dil to pagal hai'')"
  using processLyricsCSV_stored_entries
    [of "\<lparr>song_name = str ''Dil Se'', lyrics_text = str ''Dil se re'' @ [10] @ str ''Dil to pagal hai''\<rparr>"
        ingestion_ok "[row_listed]"]
  by (simp add: listed_processed)

theorem processLyricsCSV_artifacts_counterexample:
  "processLyricsCSV ingestion_ok [row_double_quoted] =
     [\<lparr>song_name = str ''My Life'', lyrics_text = lyrics_double_quoted\<rparr>] \<and>
   prefix [91] lyrics_double_quoted \<and> suffix [93] lyrics_double_quoted \<and>
   sublist ([39] @ str ''Lyrics'' @ [39]) lyrics_double_quoted \<and>
   sublist ([39] @ str ''1'' @ [39]) lyrics_double_quoted"
proof -
  have nl: "\<not> list_literal lyrics_double_quoted"
    by (simp add: lyrics_double_quoted_def eval_ingest)
  have "process_song ingestion_ok row_double_quoted =
     Some \<lparr>song_name = str ''My Life'', lyrics_text = lyrics_double_quoted\<rparr>"
    by (simp add: process_song_def row_double_quoted_def clean_hindi_lyrics_def nl Let_def)
       (simp add: ingestion_ok_def lyrics_double_quoted_def str_def)
  then have 1: "processLyricsCSV ingestion_ok [row_double_quoted] =
     [\<lparr>song_name = str ''My Life'', lyrics_text = lyrics_double_quoted\<rparr>]"
    by (simp add: processLyricsCSV_def List.map_filter_def)
  have 2: "prefix [91] lyrics_double_quoted" by (simp add: lyrics_double_quoted_def)
  have 3: "suffix [93] lyrics_double_quoted"
    by (simp add: lyrics_double_quoted_def suffix_to_prefix)
  have "lyrics_double_quoted =
      ([91, 34] @ str ''It'' @ [39] @ str ''s my life'' @ [34, 44, 32]) @
      ([39] @ str ''Lyrics'' @ [39]) @ ([44, 32, 39] @ str ''1'' @ [39, 93])"
    by (simp add: lyrics_double_quoted_def)
  then have 4: "sublist ([39] @ str ''Lyrics'' @ [39]) lyrics_double_quoted"
    unfolding sublist_def by blast
  have "lyrics_double_quoted =
      ([91, 34] @ str ''It'' @ [39] @ str ''s my life'' @ [34, 44, 32, 39] @ str ''Lyrics'' @ [39, 44, 32]) @
      ([39] @ str ''1'' @ [39]) @ [93]"
    by (simp add: lyrics_double_quoted_def)
  then have 5: "sublist ([39] @ str ''1'' @ [39]) lyrics_double_quoted"
    unfolding sublist_def by blast
  from 1 2 3 4 5 show ?thesis by simp
qed

end
